theory Spec2Isabelle
  imports Complex_Main "HOL-Library.Sublist" "HOL-Library.Multiset"
begin

section \<open>JavaScript values\<close>

text \<open>
  A JavaScript string is a sequence of UTF-16 code units. A code unit is modelled by its
  numeric value, so that \<open>length\<close> counts what \<^verbatim>\<open>.length\<close> counts and the characters
  beyond ASCII that the source names (the bullet U+2022, the dashes U+2013 and U+2014,
  the Unicode spaces) are ordinary elements. \<open>js\<close> turns a literal into such a string.
\<close>

type_synonym jschar = nat
type_synonym jsstring = "jschar list"

definition js :: "string \<Rightarrow> jsstring" where
  "js s = map of_char s"

text \<open>
  Thrown values. \<open>AppError message statusCode code\<close> is the class of
  \<^verbatim>\<open>error.middleware.js\<close>; \<open>Error\<close> and \<open>TypeError\<close> are the built-in ones.
\<close>

datatype error =
    AppError jsstring nat jsstring
  | Error jsstring
  | TypeError

definition badRequest :: "jsstring \<Rightarrow> error" where
  "badRequest message = AppError message 400 (js ''BAD_REQUEST'')"

definition notFound :: "jsstring \<Rightarrow> error" where
  "notFound message = AppError message 404 (js ''NOT_FOUND'')"


section \<open>Session model (\<^verbatim>\<open>session.model.js\<close>)\<close>

datatype phase = DUMP | CLARITY | DECISION | PLANNING | EXECUTION

definition PHASE_ORDER :: "phase list" where
  "PHASE_ORDER = [DUMP, CLARITY, DECISION, PLANNING, EXECUTION]"

text \<open>\<^verbatim>\<open>Array.prototype.indexOf\<close>: the first index of the element, \<open>-1\<close> when absent.\<close>

fun indexOf :: "'a list \<Rightarrow> 'a \<Rightarrow> int" where
  "indexOf [] x = -1"
| "indexOf (y # ys) x =
     (if y = x then 0 else (let i = indexOf ys x in if i < 0 then -1 else i + 1))"

datatype role = user | assistant | system

record session =
  session_id :: jsstring
  user_id :: "jsstring option"
  current_phase :: phase
  created_at :: jsstring
  updated_at :: jsstring

record session_message =
  message_id :: jsstring
  message_session_id :: jsstring
  message_role :: role
  message_content :: jsstring
  message_phase :: phase
  message_created_at :: jsstring

text \<open>
  The two module-level \<^verbatim>\<open>Map\<close>s. The identifiers of \<^verbatim>\<open>randomUUID()\<close> and the
  time stamps of \<^verbatim>\<open>new Date().toISOString()\<close> are arguments of the operations.
\<close>

record store =
  sessions :: "jsstring \<rightharpoonup> session"
  messages :: "jsstring \<rightharpoonup> session_message list"

definition empty_store :: store where
  "empty_store = \<lparr>sessions = Map.empty, messages = Map.empty\<rparr>"

definition create :: "store \<Rightarrow> jsstring option \<Rightarrow> jsstring \<Rightarrow> jsstring \<Rightarrow> jsstring \<Rightarrow> session \<times> store" where
  "create st userId uuid now1 now2 =
     (let session = \<lparr>session_id = uuid, user_id = userId, current_phase = DUMP,
                      created_at = now1, updated_at = now2\<rparr>
      in (session, st\<lparr>sessions := (sessions st)(uuid \<mapsto> session),
                      messages := (messages st)(uuid \<mapsto> [])\<rparr>))"

definition findById :: "store \<Rightarrow> jsstring \<Rightarrow> session option" where
  "findById st ident = sessions st ident"

text \<open>
  \<^verbatim>\<open>findWithMessages\<close> returns a copy of the session object together with the stored
  message array itself (not a copy of it).
\<close>

definition findWithMessages :: "store \<Rightarrow> jsstring \<Rightarrow> (session \<times> session_message list) option" where
  "findWithMessages st ident =
     (case sessions st ident of
        None \<Rightarrow> None
      | Some session \<Rightarrow>
          Some (session, (case messages st ident of None \<Rightarrow> [] | Some ms \<Rightarrow> ms)))"

definition addMessage ::
  "store \<Rightarrow> jsstring \<Rightarrow> role \<Rightarrow> jsstring \<Rightarrow> phase \<Rightarrow> jsstring \<Rightarrow> jsstring \<Rightarrow> jsstring
     \<Rightarrow> session_message option \<times> store" where
  "addMessage st sessionId r content ph uuid now1 now2 =
     (case sessions st sessionId of
        None \<Rightarrow> (None, st)
      | Some session \<Rightarrow>
          (let message = \<lparr>message_id = uuid, message_session_id = sessionId, message_role = r,
                          message_content = content, message_phase = ph,
                          message_created_at = now1\<rparr>;
               sessionMessages = (case messages st sessionId of None \<Rightarrow> [] | Some ms \<Rightarrow> ms)
           in (Some message,
               st\<lparr>messages := (messages st)(sessionId \<mapsto> sessionMessages @ [message]),
                  sessions := (sessions st)(sessionId \<mapsto> session\<lparr>updated_at := now2\<rparr>)\<rparr>)))"

definition advancePhase :: "store \<Rightarrow> jsstring \<Rightarrow> jsstring \<Rightarrow> session option \<times> store" where
  "advancePhase st sessionId now =
     (case sessions st sessionId of
        None \<Rightarrow> (None, st)
      | Some session \<Rightarrow>
          (let currentIndex = indexOf PHASE_ORDER (current_phase session);
               nextIndex = currentIndex + 1
           in if nextIndex \<ge> int (length PHASE_ORDER) then (None, st)
              else (let nextPhase = PHASE_ORDER ! nat nextIndex;
                        session' = session\<lparr>current_phase := nextPhase, updated_at := now\<rparr>
                    in (Some session', st\<lparr>sessions := (sessions st)(sessionId \<mapsto> session')\<rparr>))))"

definition canAdvance :: "phase \<Rightarrow> bool" where
  "canAdvance currentPhase = (indexOf PHASE_ORDER currentPhase < int (length PHASE_ORDER) - 1)"

text \<open>
  The operations of the store that write to it, and the executions of the store: a run
  is a sequence of operations from the empty maps. \<^verbatim>\<open>randomUUID()\<close> returns an
  identifier that no session has yet.
\<close>

datatype store_op =
    Create "jsstring option" jsstring jsstring jsstring
  | AddMessage jsstring role jsstring phase jsstring jsstring jsstring
  | AdvancePhase jsstring jsstring

fun run_op :: "store \<Rightarrow> store_op \<Rightarrow> store" where
  "run_op st (Create userId uuid now1 now2) = snd (create st userId uuid now1 now2)"
| "run_op st (AddMessage sessionId r content ph uuid now1 now2) =
     snd (addMessage st sessionId r content ph uuid now1 now2)"
| "run_op st (AdvancePhase sessionId now) = snd (advancePhase st sessionId now)"

fun fresh_op :: "store \<Rightarrow> store_op \<Rightarrow> bool" where
  "fresh_op st (Create userId uuid now1 now2) = (sessions st uuid = None)"
| "fresh_op st _ = True"

inductive store_run :: "store \<Rightarrow> store_op list \<Rightarrow> store \<Rightarrow> bool" where
  run_nil: "store_run st [] st"
| run_cons: "fresh_op st op \<Longrightarrow> store_run (run_op st op) ops st' \<Longrightarrow> store_run st (op # ops) st'"

definition reachable :: "store \<Rightarrow> bool" where
  "reachable st = (\<exists>ops. store_run empty_store ops st)"

definition phase_le :: "phase \<Rightarrow> phase \<Rightarrow> bool" where
  "phase_le p q = (indexOf PHASE_ORDER p \<le> indexOf PHASE_ORDER q)"

definition successor_of :: "phase \<Rightarrow> phase \<Rightarrow> bool" where
  "successor_of p q =
     (\<exists>i < length PHASE_ORDER - 1. PHASE_ORDER ! i = p \<and> PHASE_ORDER ! (i + 1) = q)"


section \<open>Session service and controller: advancing the phase\<close>

text \<open>\<^verbatim>\<open>sessionService.advancePhase\<close>.\<close>

definition service_advancePhase :: "store \<Rightarrow> jsstring \<Rightarrow> jsstring \<Rightarrow> (error + session option) \<times> store" where
  "service_advancePhase st sessionId now =
     (case findById st sessionId of
        None \<Rightarrow> (Inl (Error (js ''Session not found'')), st)
      | Some session \<Rightarrow>
          if \<not> canAdvance (current_phase session)
          then (Inl (Error (js ''Cannot advance from current phase'')), st)
          else (case advancePhase st sessionId now of (r, st') \<Rightarrow> (Inr r, st')))"

record advance_response =
  response_id :: jsstring
  previousPhase :: phase
  currentPhase :: phase

text \<open>\<^verbatim>\<open>sessionController.advancePhase\<close>; a thrown error reaches the error middleware.\<close>

definition controller_advancePhase ::
  "store \<Rightarrow> jsstring \<Rightarrow> jsstring \<Rightarrow> (error + advance_response) \<times> store" where
  "controller_advancePhase st ident now =
     (case findWithMessages st ident of
        None \<Rightarrow> (Inl (notFound (js ''Session not found'')), st)
      | Some (session, ms) \<Rightarrow>
          if current_phase session = DUMP
          then (Inl (badRequest
                  (js ''Phase 2 (CLARITY) is not yet implemented. Stay in the dump phase for now.'')), st)
          else (case service_advancePhase st ident now of
                  (Inl e, st') \<Rightarrow> (Inl e, st')
                | (Inr None, st') \<Rightarrow> (Inl (badRequest (js ''Cannot advance from current phase'')), st')
                | (Inr (Some updated), st') \<Rightarrow>
                    (Inr \<lparr>response_id = session_id updated,
                          previousPhase = current_phase session,
                          currentPhase = current_phase updated\<rparr>, st')))"


section \<open>JavaScript strings and JSON values\<close>

text \<open>
  The code units that \<^verbatim>\<open>String.prototype.trim\<close> removes and that \<^verbatim>\<open>\s\<close> matches:
  ECMAScript's WhiteSpace and LineTerminator.
\<close>

definition isLineTerminator :: "jschar \<Rightarrow> bool" where
  "isLineTerminator c = (c = 0x0A \<or> c = 0x0D \<or> c = 0x2028 \<or> c = 0x2029)"

definition isWhiteSpace :: "jschar \<Rightarrow> bool" where
  "isWhiteSpace c =
     (c = 0x09 \<or> c = 0x0B \<or> c = 0x0C \<or> c = 0x20 \<or> c = 0xA0 \<or> c = 0x1680 \<or>
      (0x2000 \<le> c \<and> c \<le> 0x200A) \<or> c = 0x202F \<or> c = 0x205F \<or> c = 0x3000 \<or>
      c = 0xFEFF \<or> isLineTerminator c)"

definition trim :: "jsstring \<Rightarrow> jsstring" where
  "trim s = rev (dropWhile isWhiteSpace (rev (dropWhile isWhiteSpace s)))"

text \<open>\<^verbatim>\<open>s.includes(pat)\<close>: \<open>pat\<close> occurs in \<open>s\<close> as a contiguous run.\<close>

fun str_includes :: "jsstring \<Rightarrow> jsstring \<Rightarrow> bool" where
  "str_includes [] pat = (pat = [])"
| "str_includes (c # cs) pat = (prefix pat (c # cs) \<or> str_includes cs pat)"

text \<open>
  A value read by \<^verbatim>\<open>JSON.parse\<close> or by the JSON body parser. A number is a finite
  double, given by its exact value; an object is the list of its own properties, each
  key once. A property that is not there reads as \<^verbatim>\<open>undefined\<close>, which is \<open>None\<close>.
\<close>

datatype json =
    JNull
  | JBool bool
  | JNumber rat
  | JString jsstring
  | JArray "json list"
  | JObject "(jsstring \<times> json) list"

fun truthy :: "json option \<Rightarrow> bool" where
  "truthy None = False"
| "truthy (Some JNull) = False"
| "truthy (Some (JBool b)) = b"
| "truthy (Some (JNumber x)) = (x \<noteq> 0)"
| "truthy (Some (JString s)) = (s \<noteq> [])"
| "truthy (Some (JArray xs)) = True"
| "truthy (Some (JObject kvs)) = True"

text \<open>
  Reading one of the properties \<^verbatim>\<open>decision\<close>, \<^verbatim>\<open>reasoning\<close>, \<^verbatim>\<open>tasks\<close>,
  \<^verbatim>\<open>title\<close>, \<^verbatim>\<open>priority\<close> of a value: \<^verbatim>\<open>null\<close> throws a TypeError, an object gives
  its property, every other value gives \<^verbatim>\<open>undefined\<close>.
\<close>

fun getProp :: "json \<Rightarrow> jsstring \<Rightarrow> error + json option" where
  "getProp JNull key = Inl TypeError"
| "getProp (JObject kvs) key = Inr (map_of kvs key)"
| "getProp v key = Inr None"

text \<open>
  What the engine's built-ins do where the source leaves it to them:
  \<^item> \<open>JSON_parse\<close>: \<^verbatim>\<open>JSON.parse\<close>, \<open>None\<close> when it throws a SyntaxError;
  \<^item> \<open>exponentLead\<close>: the integer that \<^verbatim>\<open>parseInt\<close> reads from the text of a number
    whose absolute value is outside \<open>[1, 10^21)\<close> (the digit before the point of the
    exponent notation, or the \<open>0\<close> of \<open>0.5\<close>);
  \<^item> \<open>lengthExceeds5\<close>: \<^verbatim>\<open>v.length > 5\<close> for an object \<open>v\<close>, which coerces the
    property to a number;
  \<^item> \<open>lowerNonAscii\<close>: \<^verbatim>\<open>toLowerCase\<close> for a string with a code unit beyond ASCII,
    which follows the Unicode case mappings.
\<close>

record builtins =
  JSON_parse :: "jsstring \<Rightarrow> json option"
  exponentLead :: "rat \<Rightarrow> int"
  lengthExceeds5 :: "(jsstring \<times> json) list \<Rightarrow> bool"
  lowerNonAscii :: "jsstring \<Rightarrow> jsstring"

text \<open>\<^verbatim>\<open>s.toLowerCase()\<close>: in an ASCII string only the letters A to Z change.\<close>

definition toLowerCase :: "builtins \<Rightarrow> jsstring \<Rightarrow> jsstring" where
  "toLowerCase B s =
     (if list_all (\<lambda>c. c < 0x80) s
      then map (\<lambda>c. if 0x41 \<le> c \<and> c \<le> 0x5A then c + 0x20 else c) s
      else lowerNonAscii B s)"

text \<open>\<^verbatim>\<open>parseInt(x, 10)\<close> of a number: the integer part of its decimal text.\<close>

definition parseInt10 :: "builtins \<Rightarrow> rat \<Rightarrow> int" where
  "parseInt10 B x =
     (if \<bar>x\<bar> < 1 \<or> 10 ^ 21 \<le> \<bar>x\<bar> then (if x < 0 then - exponentLead B \<bar>x\<bar> else exponentLead B \<bar>x\<bar>)
      else (if x < 0 then - \<lfloor>\<bar>x\<bar>\<rfloor> else \<lfloor>\<bar>x\<bar>\<rfloor>))"

text \<open>The decimal text of an index, for the messages that name a task.\<close>

fun digits :: "nat \<Rightarrow> jsstring" where
  "digits n = (if n < 10 then [48 + n] else digits (n div 10) @ [48 + n mod 10])"

fun join :: "jsstring \<Rightarrow> jsstring list \<Rightarrow> jsstring" where
  "join sep [] = []"
| "join sep [x] = x"
| "join sep (x # y # ys) = x @ sep @ join sep (y # ys)"


section \<open>Input normalizer (\<^verbatim>\<open>normalizeInput.js\<close>)\<close>

text \<open>\<^verbatim>\<open>replace(/\s+/g, ' ')\<close>: every maximal run of white space becomes one space.\<close>

function collapseWhiteSpace :: "jsstring \<Rightarrow> jsstring" where
  "collapseWhiteSpace [] = []"
| "collapseWhiteSpace (c # cs) =
     (if isWhiteSpace c then 0x20 # collapseWhiteSpace (dropWhile isWhiteSpace cs)
      else c # collapseWhiteSpace cs)"
  by pat_completeness auto
termination
  by (relation "measure length") (auto simp: length_dropWhile_le less_Suc_eq_le)

text \<open>The class \<^verbatim>\<open>[\x00-\x08\x0B\x0C\x0E-\x1F\x7F]\<close>.\<close>

definition isControl :: "jschar \<Rightarrow> bool" where
  "isControl c = (c \<le> 0x08 \<or> c = 0x0B \<or> c = 0x0C \<or> (0x0E \<le> c \<and> c \<le> 0x1F) \<or> c = 0x7F)"

text \<open>
  \<^verbatim>\<open>replace(/[...]/g, r)\<close> for a class of single code units. The two quote classes of
  the source hold the ASCII quote itself; the dash class holds U+2013 and U+2014.
\<close>

definition replaceClass :: "(jschar \<Rightarrow> bool) \<Rightarrow> jschar \<Rightarrow> jsstring \<Rightarrow> jsstring" where
  "replaceClass cls r s = map (\<lambda>c. if cls c then r else c) s"

definition normalizeInput :: "json option \<Rightarrow> jsstring" where
  "normalizeInput input =
     (case input of
        Some (JString s) \<Rightarrow>
          if s = [] then []
          else (let normalized = trim s;
                    normalized = collapseWhiteSpace normalized;
                    normalized = filter (\<lambda>c. \<not> isControl c) normalized;
                    normalized = replaceClass (\<lambda>c. c = 0x22) 0x22 normalized;
                    normalized = replaceClass (\<lambda>c. c = 0x27) 0x27 normalized;
                    normalized = replaceClass (\<lambda>c. c = 0x2013 \<or> c = 0x2014) 0x2D normalized
                in normalized)
      | _ \<Rightarrow> [])"

text \<open>
  The result object of \<^verbatim>\<open>validateInput\<close>. The two early returns have no
  \<^verbatim>\<open>normalized\<close> property (\<open>None\<close>); the last one has the string or \<^verbatim>\<open>null\<close>.
\<close>

record validation =
  valid :: bool
  errors :: "jsstring list"
  normalized :: "json option"

definition isAsciiLetter :: "jschar \<Rightarrow> bool" where
  "isAsciiLetter c = ((0x61 \<le> c \<and> c \<le> 0x7A) \<or> (0x41 \<le> c \<and> c \<le> 0x5A))"

definition validateInput :: "json option \<Rightarrow> validation" where
  "validateInput input =
     (if \<not> truthy input
      then \<lparr>valid = False, errors = [js ''Input is required''], normalized = None\<rparr>
      else case input of
        Some (JString s) \<Rightarrow>
          (let normalized = normalizeInput input;
               errors = (if length normalized < 3
                         then [js ''Input is too short (minimum 3 characters)''] else []);
               errors = errors @ (if length normalized > 10000
                         then [js ''Input is too long (maximum 10000 characters)''] else []);
               hasLetters = list_ex isAsciiLetter normalized;
               errors = errors @ (if \<not> hasLetters then [js ''Input must contain text''] else [])
           in \<lparr>valid = (errors = []), errors = errors,
               normalized = (if errors = [] then Some (JString normalized) else Some JNull)\<rparr>)
      | _ \<Rightarrow> \<lparr>valid = False, errors = [js ''Input must be a string''], normalized = None\<rparr>)"


section \<open>Decision response parser (\<^verbatim>\<open>responseParser.js\<close>)\<close>

definition ALIGNMENT_SUFFIX :: jsstring where
  "ALIGNMENT_SUFFIX = js ''Are we aligned, or should we challenge this before moving on?''"

text \<open>A task whose \<^verbatim>\<open>title\<close> is a string and whose \<^verbatim>\<open>priority\<close> is a number.\<close>

record raw_task =
  raw_title :: jsstring
  raw_priority :: rat

record task =
  title :: jsstring
  priority :: int

record decision =
  decision_text :: jsstring
  reasoning :: jsstring
  tasks :: "task list"

text \<open>The second \<^verbatim>\<open>map\<close> of \<^verbatim>\<open>normalizeTasks\<close>: the priority becomes the index plus one.\<close>

definition renumber :: "task list \<Rightarrow> task list" where
  "renumber ts = map (\<lambda>(t, index). t\<lparr>priority := int index + 1\<rparr>) (zip ts [0..<length ts])"

text \<open>
  \<^verbatim>\<open>Array.prototype.sort\<close> is stable, and the comparator \<^verbatim>\<open>a.priority - b.priority\<close>
  orders the integers that \<^verbatim>\<open>parseInt\<close> returned, so the sorted array is the stable
  sort by that key, which \<open>sort_key\<close> computes.
\<close>

definition normalizeTasks :: "builtins \<Rightarrow> raw_task list \<Rightarrow> task list" where
  "normalizeTasks B ts =
     renumber
       (sort_key priority
          (map (\<lambda>t. \<lparr>title = trim (raw_title t), priority = parseInt10 B (raw_priority t)\<rparr>) ts))"

text \<open>\<^verbatim>\<open>replace(/[.!?]$/, '')\<close>: without the \<^verbatim>\<open>m\<close> flag \<^verbatim>\<open>$\<close> is the end of the string.\<close>

definition stripTrailingPunctuation :: "jsstring \<Rightarrow> jsstring" where
  "stripTrailingPunctuation s =
     (if s \<noteq> [] \<and> (last s = 0x2E \<or> last s = 0x21 \<or> last s = 0x3F) then butlast s else s)"

definition ensureAlignmentQuestion :: "jsstring \<Rightarrow> jsstring" where
  "ensureAlignmentQuestion r =
     (if str_includes r ALIGNMENT_SUFFIX then r
      else (let trimmed = trim (stripTrailingPunctuation r)
            in trimmed @ js ''. '' @ ALIGNMENT_SUFFIX))"

definition isString :: "json option \<Rightarrow> bool" where
  "isString v = (case v of Some (JString s) \<Rightarrow> True | _ \<Rightarrow> False)"

definition isArray :: "json option \<Rightarrow> bool" where
  "isArray v = (case v of Some (JArray xs) \<Rightarrow> True | _ \<Rightarrow> False)"

text \<open>\<^verbatim>\<open>typeof p !== 'number' || p < 1\<close>.\<close>

definition invalidPriority :: "json option \<Rightarrow> bool" where
  "invalidPriority p = (case p of Some (JNumber x) \<Rightarrow> x < 1 | _ \<Rightarrow> True)"

text \<open>\<^verbatim>\<open>v.length > 5\<close> for a truthy value \<open>v\<close>.\<close>

definition lengthGreater5 :: "builtins \<Rightarrow> json option \<Rightarrow> bool" where
  "lengthGreater5 B v =
     (case v of
        Some (JArray xs) \<Rightarrow> length xs > 5
      | Some (JString s) \<Rightarrow> length s > 5
      | Some (JObject kvs) \<Rightarrow> lengthExceeds5 B kvs
      | _ \<Rightarrow> False)"

text \<open>
  The \<^verbatim>\<open>forEach\<close> over the tasks: the messages it pushes, and the tasks seen as
  records. A task that is \<^verbatim>\<open>null\<close> throws.
\<close>

fun checkTasks :: "json list \<Rightarrow> nat \<Rightarrow> error + (jsstring list \<times> raw_task list)" where
  "checkTasks [] index = Inr ([], [])"
| \<open>checkTasks (task # rest) index =
     (case getProp task (js ''title'') of
        Inl e \<Rightarrow> Inl e
      | Inr t \<Rightarrow>
     (case getProp task (js ''priority'') of
        Inl e \<Rightarrow> Inl e
      | Inr p \<Rightarrow>
     (case checkTasks rest (index + 1) of
        Inl e \<Rightarrow> Inl e
      | Inr (errs, raws) \<Rightarrow>
          Inr ((if \<not> truthy t \<or> \<not> isString t
                then [js ''Task '' @ digits (index + 1) @ js '': missing or invalid "title"''] else [])
               @ (if invalidPriority p
                then [js ''Task '' @ digits (index + 1) @ js '': missing or invalid "priority"''] else [])
               @ errs,
               (case (t, p) of
                  (Some (JString s), Some (JNumber x)) \<Rightarrow> [\<lparr>raw_title = s, raw_priority = x\<rparr>]
                | _ \<Rightarrow> []) @ raws))))\<close>

definition validateDecisionStructure :: "builtins \<Rightarrow> json \<Rightarrow> error + decision" where
  \<open>validateDecisionStructure B data =
     (case getProp data (js ''decision'') of
        Inl e \<Rightarrow> Inl e
      | Inr dec \<Rightarrow>
     (case getProp data (js ''reasoning'') of
        Inl e \<Rightarrow> Inl e
      | Inr rea \<Rightarrow>
     (case getProp data (js ''tasks'') of
        Inl e \<Rightarrow> Inl e
      | Inr tks \<Rightarrow>
     (case (case tks of Some (JArray ts) \<Rightarrow> checkTasks ts 0 | _ \<Rightarrow> Inr ([], [])) of
        Inl e \<Rightarrow> Inl e
      | Inr (taskErrors, raws) \<Rightarrow>
          (let errors =
                 (if \<not> truthy dec \<or> \<not> isString dec
                  then [js ''Missing or invalid "decision" field''] else [])
               @ (if \<not> truthy rea \<or> \<not> isString rea
                  then [js ''Missing or invalid "reasoning" field''] else [])
               @ (if \<not> isArray tks \<or> tks = Some (JArray [])
                  then [js ''Missing or empty "tasks" array''] else [])
               @ (if truthy tks \<and> lengthGreater5 B tks
                  then [js ''Maximum 5 tasks allowed''] else [])
               @ taskErrors
           in if errors \<noteq> []
              then Inl (Error (js ''Invalid AI response: '' @ join (js ''; '') errors))
              else (case (dec, rea) of
                      (Some (JString d), Some (JString r)) \<Rightarrow>
                        Inr \<lparr>decision_text = trim d, reasoning = trim r,
                             tasks = normalizeTasks B raws\<rparr>
                    | _ \<Rightarrow> Inl TypeError))))))\<close>

definition parseDecisionResponse :: "builtins \<Rightarrow> jsstring \<Rightarrow> error + decision" where
  "parseDecisionResponse B rawResponse =
     (case JSON_parse B rawResponse of
        None \<Rightarrow> Inl (Error (js ''Failed to parse AI response as JSON''))
      | Some parsed \<Rightarrow>
          (case validateDecisionStructure B parsed of
             Inl e \<Rightarrow> Inl e
           | Inr validated \<Rightarrow>
               Inr (validated\<lparr>reasoning := ensureAlignmentQuestion (reasoning validated)\<rparr>)))"



section \<open>Priority service (\<^verbatim>\<open>priorityService.js\<close>)\<close>

text \<open>
  A row of the tasks table: the two columns that \<^verbatim>\<open>reorderTasks\<close> reads and writes;
  the other columns are the extension of the record, which the spread copies.
\<close>

record task_row =
  task_id :: jsstring
  task_priority :: rat

fun findIndex :: "('a \<Rightarrow> bool) \<Rightarrow> 'a list \<Rightarrow> int" where
  "findIndex P [] = -1"
| "findIndex P (x # xs) =
     (if P x then 0 else (let i = findIndex P xs in if i < 0 then -1 else i + 1))"

text \<open>The \<^verbatim>\<open>for\<close> loop of \<^verbatim>\<open>reorderTasks\<close>, from the state before iteration \<open>i\<close>.\<close>

function reorderLoop ::
  "'a task_row_scheme \<Rightarrow> 'a task_row_scheme list \<Rightarrow> rat \<Rightarrow> nat \<Rightarrow> nat
     \<Rightarrow> 'a task_row_scheme list \<Rightarrow> 'a task_row_scheme list" where
  "reorderLoop task otherTasks newPriority i priorityCounter reordered =
     (if i < length otherTasks + 1
      then (let inserted = (of_nat priorityCounter = newPriority);
                reordered1 = (if inserted
                              then reordered @ [task\<lparr>task_priority := of_nat priorityCounter\<rparr>]
                              else reordered);
                priorityCounter1 = (if inserted then priorityCounter + 1 else priorityCounter);
                present = (i < length otherTasks);
                reordered2 = (if present
                              then reordered1 @ [(otherTasks ! i)\<lparr>task_priority := of_nat priorityCounter1\<rparr>]
                              else reordered1);
                priorityCounter2 = (if present then priorityCounter1 + 1 else priorityCounter1)
            in reorderLoop task otherTasks newPriority (i + 1) priorityCounter2 reordered2)
      else reordered)"
  by pat_completeness auto
termination
  by (relation "measure (\<lambda>(task, otherTasks, newPriority, i, priorityCounter, reordered).
        length otherTasks + 1 - i)") auto

definition reorderTasks ::
  "'a task_row_scheme list \<Rightarrow> jsstring \<Rightarrow> rat \<Rightarrow> 'a task_row_scheme list" where
  "reorderTasks taskList taskId newPriority =
     (let taskIndex = findIndex (\<lambda>t. task_id t = taskId) taskList
      in if taskIndex = -1 then taskList
         else (let task = taskList ! nat taskIndex;
                   otherTasks = filter (\<lambda>t. task_id t \<noteq> taskId) taskList
               in reorderLoop task otherTasks newPriority 0 1 []))"


section \<open>Phase rule engine (\<^verbatim>\<open>phasePrompts.js\<close>, \<^verbatim>\<open>sessionService.js\<close>)\<close>

subsection \<open>Regular expressions\<close>

text \<open>
  The regular expressions of \<^verbatim>\<open>DUMP_PHASE_VIOLATIONS\<close> are built from single code
  units, sequence, alternation, bounded repetition of a class, and the assertions
  \<^verbatim>\<open>^\<close> and \<^verbatim>\<open>$\<close> (always with the \<^verbatim>\<open>m\<close> flag there) and \<^verbatim>\<open>\b\<close>. A cursor is a
  position in the subject: the text before it, reversed, and the text after it
  (\<open>seen\<close> and \<open>rest\<close> below).
  \<open>ends r cur\<close> lists the cursors where a match of \<open>r\<close> that starts at \<open>cur\<close> can end, so
  that every way to backtrack is there.
\<close>

datatype regex =
    Eps
  | Chr "jschar \<Rightarrow> bool"
  | Seq regex regex
  | Alt regex regex
  | Rep "jschar \<Rightarrow> bool" nat "nat option"
  | LineStart
  | LineEnd
  | WordBoundary

type_synonym cursor = "jsstring \<times> jsstring"

definition isDigit :: "jschar \<Rightarrow> bool" where
  "isDigit c = (0x30 \<le> c \<and> c \<le> 0x39)"

text \<open>The class \<^verbatim>\<open>\w\<close>, which decides \<^verbatim>\<open>\b\<close>.\<close>

definition isWordChar :: "jschar \<Rightarrow> bool" where
  "isWordChar c = (isAsciiLetter c \<or> isDigit c \<or> c = 0x5F)"

fun ends :: "regex \<Rightarrow> cursor \<Rightarrow> cursor list" where
  "ends Eps cur = [cur]"
| "ends (Chr P) (seen, rest) =
     (case rest of [] \<Rightarrow> [] | c # cs \<Rightarrow> if P c then [(c # seen, cs)] else [])"
| "ends (Seq r s) cur = concat (map (ends s) (ends r cur))"
| "ends (Alt r s) cur = ends r cur @ ends s cur"
| "ends (Rep P lo hi) (seen, rest) =
     (let run = length (takeWhile P rest);
          top = (case hi of None \<Rightarrow> run | Some h \<Rightarrow> min h run)
      in map (\<lambda>k. (rev (take k rest) @ seen, drop k rest)) [lo..<Suc top])"
| "ends LineStart (seen, rest) =
     (if seen = [] \<or> isLineTerminator (hd seen) then [(seen, rest)] else [])"
| "ends LineEnd (seen, rest) =
     (if rest = [] \<or> isLineTerminator (hd rest) then [(seen, rest)] else [])"
| "ends WordBoundary (seen, rest) =
     (if (seen \<noteq> [] \<and> isWordChar (hd seen)) \<noteq> (rest \<noteq> [] \<and> isWordChar (hd rest))
      then [(seen, rest)] else [])"

text \<open>\<^verbatim>\<open>pattern.test(s)\<close>: a match starts at some position of \<open>s\<close>.\<close>

definition regex_test :: "regex \<Rightarrow> jsstring \<Rightarrow> bool" where
  "regex_test r s = list_ex (\<lambda>i. ends r (rev (take i s), drop i s) \<noteq> []) [0..<Suc (length s)]"

text \<open>
  A literal under the \<^verbatim>\<open>i\<close> flag (without \<^verbatim>\<open>u\<close>): two code units match when their
  upper-case forms agree, and a code unit beyond ASCII never maps to an ASCII one, so a
  letter of the pattern matches its two ASCII forms and any other character itself.
\<close>

definition upperAscii :: "jschar \<Rightarrow> jschar" where
  "upperAscii c = (if 0x61 \<le> c \<and> c \<le> 0x7A then c - 0x20 else c)"

definition lit_i :: "string \<Rightarrow> regex" where
  "lit_i s = foldr (\<lambda>x r. Seq (Chr (\<lambda>c. upperAscii c = upperAscii (of_char x))) r) s Eps"

definition alts :: "regex list \<Rightarrow> regex" where
  "alts rs = foldr Alt (butlast rs) (last rs)"

subsection \<open>The checks of the DUMP phase\<close>

datatype category = cat_questions | cat_advice | cat_structure | cat_nextSteps

text \<open>
  The table \<^verbatim>\<open>DUMP_PHASE_VIOLATIONS\<close>, in the order of its keys. A violation names its
  regular expression by the position in the list of its category, where the source
  stores the text \<^verbatim>\<open>pattern.toString()\<close>.
\<close>

definition DUMP_PHASE_VIOLATIONS :: "(category \<times> regex list) list" where
  \<open>DUMP_PHASE_VIOLATIONS =
     [(cat_questions,
        [Seq (Chr (\<lambda>c. c = 0x3F)) LineEnd,
         Seq LineStart
           (Seq (alts (map lit_i [''what'', ''how'', ''why'', ''when'', ''where'', ''who'', ''would'',
                                  ''could'', ''can'', ''do'', ''does'', ''have'', ''has'', ''are'', ''is'']))
                (Chr isWhiteSpace))]),
      (cat_advice,
        [Seq WordBoundary
           (Seq (alts (map lit_i [''you should'', ''you could'', ''try to'', ''consider'', ''i suggest'',
                                  ''i recommend'', ''maybe you'', ''perhaps you'']))
                WordBoundary),
         Seq WordBoundary
           (Seq (alts (map lit_i [''why don't you'', ''what if you'', ''have you tried'']))
                WordBoundary)]),
      (cat_structure,
        [Seq LineStart
           (Seq (Rep isWhiteSpace 0 None)
              (Seq (Chr (\<lambda>c. c = 0x2D \<or> c = 0x2022 \<or> c = 0x2A)) (Chr isWhiteSpace))),
         Seq LineStart
           (Seq (Rep isWhiteSpace 0 None)
              (Seq (Rep isDigit 1 None) (Seq (Chr (\<lambda>c. c = 0x2E)) (Chr isWhiteSpace)))),
         Seq LineStart (Seq (Rep (\<lambda>c. c = 0x23) 1 (Some 6)) (Chr isWhiteSpace))]),
      (cat_nextSteps,
        [Seq WordBoundary
           (Seq (alts (map lit_i [''next step'', ''first step'', ''start by'', ''begin with'',
                                  ''action item'']))
                WordBoundary),
         Seq WordBoundary
           (Seq (alts (map lit_i [''to-do'', ''todo'', ''task'', ''plan''])) WordBoundary)])]\<close>

record violation =
  violation_category :: category
  violation_pattern :: nat

record violations_check =
  hasViolations :: bool
  violations :: "violation list"

text \<open>The inner loop with its \<^verbatim>\<open>break\<close>: the first expression of the list that matches.\<close>

fun firstMatch :: "regex list \<Rightarrow> nat \<Rightarrow> jsstring \<Rightarrow> nat option" where
  "firstMatch [] index response = None"
| "firstMatch (p # ps) index response =
     (if regex_test p response then Some index else firstMatch ps (index + 1) response)"

definition checkDumpPhaseViolations :: "jsstring \<Rightarrow> violations_check" where
  "checkDumpPhaseViolations response =
     (let found = concat (map (\<lambda>(cat, patterns).
                     (case firstMatch patterns 0 response of
                        None \<Rightarrow> []
                      | Some index \<Rightarrow> [\<lparr>violation_category = cat, violation_pattern = index\<rparr>]))
                   DUMP_PHASE_VIOLATIONS)
      in \<lparr>hasViolations = (length found > 0), violations = found\<rparr>)"

text \<open>\<^verbatim>\<open>s.split('\n')\<close>.\<close>

fun splitLines :: "jsstring \<Rightarrow> jsstring list" where
  "splitLines [] = [[]]"
| "splitLines (c # cs) =
     (if c = 0x0A then [] # splitLines cs
      else (case splitLines cs of [] \<Rightarrow> [[c]] | l # ls \<Rightarrow> (c # l) # ls))"

record length_check =
  isValid :: bool
  lineCount :: nat

definition checkResponseLength :: "jsstring \<Rightarrow> length_check" where
  "checkResponseLength response =
     (let lines = filter (\<lambda>l. trim l \<noteq> []) (splitLines (trim response))
      in \<lparr>isValid = (length lines \<ge> 1 \<and> length lines \<le> 6), lineCount = length lines\<rparr>)"

subsection \<open>Prompts, configuration and the client\<close>

record chat_message =
  chat_role :: role
  chat_content :: jsstring

record phase_config =
  temperature :: rat
  maxTokens :: nat
  topP :: rat

definition PHASE_CONFIG :: "phase \<Rightarrow> phase_config" where
  "PHASE_CONFIG ph =
     (case ph of
        DUMP \<Rightarrow> \<lparr>temperature = 4 / 10, maxTokens = 150, topP = 9 / 10\<rparr>
      | CLARITY \<Rightarrow> \<lparr>temperature = 5 / 10, maxTokens = 200, topP = 9 / 10\<rparr>
      | DECISION \<Rightarrow> \<lparr>temperature = 3 / 10, maxTokens = 250, topP = 85 / 100\<rparr>
      | PLANNING \<Rightarrow> \<lparr>temperature = 4 / 10, maxTokens = 300, topP = 9 / 10\<rparr>
      | EXECUTION \<Rightarrow> \<lparr>temperature = 5 / 10, maxTokens = 200, topP = 9 / 10\<rparr>)"

definition getPhaseConfig :: "phase \<Rightarrow> phase_config" where
  "getPhaseConfig ph = PHASE_CONFIG ph"

record llm_request =
  request_model :: jsstring
  request_messages :: "chat_message list"
  request_temperature :: rat
  request_max_tokens :: nat
  request_top_p :: rat

text \<open>
  What the service is configured with: the texts of \<^verbatim>\<open>PHASE_PROMPTS\<close>, the model name
  \<^verbatim>\<open>env.ai.model\<close>, and the client. \<open>completions_create\<close> is the call
  \<^verbatim>\<open>aiClient.chat.completions.create\<close>: it throws, or returns a completion whose
  first choice has a text or none.
\<close>

record ai_env =
  PHASE_PROMPTS :: "phase \<Rightarrow> jsstring"
  ai_model :: jsstring
  completions_create :: "llm_request \<Rightarrow> error + jsstring option"

definition getPhasePrompt :: "ai_env \<Rightarrow> phase \<Rightarrow> jsstring" where
  "getPhasePrompt E ph = PHASE_PROMPTS E ph"

definition buildPhaseMessages :: "ai_env \<Rightarrow> phase \<Rightarrow> chat_message list \<Rightarrow> chat_message list" where
  "buildPhaseMessages E ph conversationHistory =
     (let systemPrompt = getPhasePrompt E ph
      in \<lparr>chat_role = system, chat_content = systemPrompt\<rparr>
         # map (\<lambda>msg. \<lparr>chat_role = chat_role msg, chat_content = chat_content msg\<rparr>)
             conversationHistory)"

subsection \<open>Generating a response\<close>

record phase_response =
  content :: jsstring
  validationPassed :: bool
  regenerated :: bool
  response_violations :: "violation list option"

definition MAX_ATTEMPTS :: nat where
  "MAX_ATTEMPTS = 3"

definition REMINDER :: chat_message where
  "REMINDER = \<lparr>chat_role = system, chat_content = js ''REMINDER: Your previous response violated phase rules. DO NOT ask questions. DO NOT give advice. DO NOT use lists. Keep it to 3-5 lines of plain reflection.''\<rparr>"

definition phaseRequest :: "ai_env \<Rightarrow> phase \<Rightarrow> chat_message list \<Rightarrow> llm_request" where
  "phaseRequest E ph conversationHistory =
     (let phaseMessages = buildPhaseMessages E ph conversationHistory;
          config = getPhaseConfig ph
      in \<lparr>request_model = ai_model E, request_messages = phaseMessages,
          request_temperature = temperature config, request_max_tokens = maxTokens config,
          request_top_p = topP config\<rparr>)"

text \<open>\<^verbatim>\<open>completion.choices[0]?.message?.content?.trim() || ''\<close>.\<close>

definition completionContent :: "jsstring option \<Rightarrow> jsstring" where
  "completionContent completion = (case completion of None \<Rightarrow> [] | Some c \<Rightarrow> trim c)"

text \<open>
  \<open>generatePhaseResponse\<close> returns, with its result, the requests that it sent to the
  client, in the order of the calls.
\<close>

function generatePhaseResponse ::
  "ai_env \<Rightarrow> phase \<Rightarrow> chat_message list \<Rightarrow> nat \<Rightarrow> llm_request list \<times> (error + phase_response)" where
  "generatePhaseResponse E ph conversationHistory attempt =
     (case completions_create E (phaseRequest E ph conversationHistory) of
        Inl e \<Rightarrow> ([phaseRequest E ph conversationHistory], Inl e)
      | Inr completion \<Rightarrow>
          if ph = DUMP \<and>
             (hasViolations (checkDumpPhaseViolations (completionContent completion)) \<or>
              \<not> isValid (checkResponseLength (completionContent completion)))
          then if attempt < MAX_ATTEMPTS
               then (case generatePhaseResponse E ph (conversationHistory @ [REMINDER]) (attempt + 1) of
                       (calls, out) \<Rightarrow> (phaseRequest E ph conversationHistory # calls, out))
               else ([phaseRequest E ph conversationHistory],
                     Inr \<lparr>content = completionContent completion, validationPassed = False,
                          regenerated = (attempt > 1),
                          response_violations =
                            Some (violations (checkDumpPhaseViolations (completionContent completion)))\<rparr>)
          else ([phaseRequest E ph conversationHistory],
                Inr \<lparr>content = completionContent completion, validationPassed = True,
                     regenerated = (attempt > 1), response_violations = None\<rparr>))"
  by pat_completeness auto
termination
  by (relation "measure (\<lambda>(E, ph, conversationHistory, attempt). MAX_ATTEMPTS - attempt)") auto

text \<open>The condition under which \<open>generatePhaseResponse\<close> does not accept a reply.\<close>

definition rejected :: "phase \<Rightarrow> jsstring \<Rightarrow> bool" where
  "rejected ph c =
     (ph = DUMP \<and> (hasViolations (checkDumpPhaseViolations c) \<or> \<not> isValid (checkResponseLength c)))"

subsection \<open>Processing a message\<close>

record message_result =
  result_message :: "session_message option"
  result_phase :: phase
  result_validationPassed :: bool
  result_regenerated :: bool

definition toChat :: "session_message \<Rightarrow> chat_message" where
  "toChat m = \<lparr>chat_role = message_role m, chat_content = message_content m\<rparr>"

text \<open>
  \<^verbatim>\<open>processMessage\<close>, with the identifier and the two time stamps of each of the two
  messages it stores. The array \<^verbatim>\<open>session.messages\<close> that \<^verbatim>\<open>findWithMessages\<close>
  returned is the stored array, and \<^verbatim>\<open>addMessage\<close> pushes onto that array: when the
  history is built, \<^verbatim>\<open>session.messages\<close> already ends with the new user message.
  Only a session without a stored array gets a new, empty one from each call.
\<close>

definition processMessage ::
  "ai_env \<Rightarrow> store \<Rightarrow> jsstring \<Rightarrow> jsstring \<Rightarrow> jsstring \<times> jsstring \<times> jsstring
     \<Rightarrow> jsstring \<times> jsstring \<times> jsstring \<Rightarrow> (error + message_result) \<times> store" where
  "processMessage E st sessionId userContent stamp1 stamp2 =
     (case findWithMessages st sessionId of
        None \<Rightarrow> (Inl (Error (js ''Session not found'')), st)
      | Some (session, sessionMessages) \<Rightarrow>
          (let currentPhase = current_phase session;
               (uuid1, now1, now1') = stamp1;
               (uuid2, now2, now2') = stamp2;
               (userMessage, st1) = addMessage st sessionId user userContent currentPhase uuid1 now1 now1';
               sessionMessagesNow =
                 (case messages st sessionId of
                    None \<Rightarrow> []
                  | Some ms \<Rightarrow> (case messages st1 sessionId of None \<Rightarrow> [] | Some ms1 \<Rightarrow> ms1));
               history = map toChat sessionMessagesNow
                         @ [\<lparr>chat_role = user, chat_content = userContent\<rparr>]
           in case snd (generatePhaseResponse E currentPhase history 1) of
                Inl e \<Rightarrow> (Inl e, st1)
              | Inr response \<Rightarrow>
                  (case addMessage st1 sessionId assistant (content response) currentPhase
                          uuid2 now2 now2' of
                     (savedMessage, st2) \<Rightarrow>
                       (Inr \<lparr>result_message = savedMessage, result_phase = currentPhase,
                             result_validationPassed = validationPassed response,
                             result_regenerated = regenerated response\<rparr>, st2))))"


section \<open>IEEE 754 double arithmetic\<close>

text \<open>
  A JavaScript number that is finite is a rational; an arithmetic operation gives the exact
  result rounded to the nearest double, ties to the even significand. \<open>exponent x\<close> is the
  binary exponent \<open>e\<close> of a positive \<open>x\<close>, with \<open>2 ^ e \<le> x < 2 ^ (e + 1)\<close>; a double has
  53 significant bits, and its last bit is worth at least \<open>2 ^ - 1074\<close>. Overflow is not
  modelled: the scorer stays below 101.
\<close>

function ilog2_up :: "rat \<Rightarrow> int" where
  "ilog2_up x = (if 2 \<le> x then ilog2_up (x / 2) + 1 else 0)"
  by pat_completeness auto
termination
proof (relation "measure (\<lambda>x. nat \<lfloor>x\<rfloor>)")
  show "wf (measure (\<lambda>x::rat. nat \<lfloor>x\<rfloor>))" by simp
next
  fix x :: rat assume x: "2 \<le> x"
  have "x / 2 \<le> x - 1" using x by simp
  then have "\<lfloor>x / 2\<rfloor> \<le> \<lfloor>x - 1\<rfloor>" by (rule floor_mono)
  then have "\<lfloor>x / 2\<rfloor> < \<lfloor>x\<rfloor>" by simp
  moreover have "0 < \<lfloor>x\<rfloor>" using x by simp
  ultimately show "(x / 2, x) \<in> measure (\<lambda>x. nat \<lfloor>x\<rfloor>)" by simp
qed

function ilog2_down :: "rat \<Rightarrow> int" where
  "ilog2_down x = (if 0 < x \<and> x < 1 then ilog2_down (x * 2) - 1 else 0)"
  by pat_completeness auto
termination
proof (relation "measure (\<lambda>x. nat \<lfloor>1 / x\<rfloor>)")
  show "wf (measure (\<lambda>x::rat. nat \<lfloor>1 / x\<rfloor>))" by simp
next
  fix x :: rat assume x: "0 < x \<and> x < 1"
  then have y: "1 < 1 / x" by simp
  have "1 / (x * 2) = (1 / x) / 2" by simp
  also have "\<dots> \<le> 1 / x - 1 / 2" using y by simp
  finally have "\<lfloor>1 / (x * 2)\<rfloor> \<le> \<lfloor>1 / x - 1 / 2\<rfloor>" by (rule floor_mono)
  also have "\<dots> \<le> \<lfloor>1 / x\<rfloor>" by (rule floor_mono) simp
  finally have le: "\<lfloor>1 / (x * 2)\<rfloor> \<le> \<lfloor>1 / x\<rfloor>" .
  have "\<lfloor>1 / (x * 2)\<rfloor> < \<lfloor>1 / x\<rfloor>"
  proof (rule ccontr)
    assume "\<not> \<lfloor>1 / (x * 2)\<rfloor> < \<lfloor>1 / x\<rfloor>"
    with le have eq: "\<lfloor>1 / (x * 2)\<rfloor> = \<lfloor>1 / x\<rfloor>" by simp
    have "of_int \<lfloor>1 / x\<rfloor> \<le> 1 / (x * 2)" using eq by (metis of_int_floor_le)
    moreover have "1 / x < of_int \<lfloor>1 / x\<rfloor> + 1" by linarith
    moreover have "1 / (x * 2) = (1 / x) / 2" by simp
    moreover have "1 \<le> \<lfloor>1 / x\<rfloor>" using y by simp
    then have "(1::rat) \<le> of_int \<lfloor>1 / x\<rfloor>" by linarith
    ultimately show False by linarith
  qed
  moreover have "0 < \<lfloor>1 / x\<rfloor>" using y by simp
  ultimately show "(x * 2, x) \<in> measure (\<lambda>x. nat \<lfloor>1 / x\<rfloor>)" by simp
qed

declare ilog2_up.simps [simp del] ilog2_down.simps [simp del]

definition exponent :: "rat \<Rightarrow> int" where
  "exponent x = (if x < 1 then ilog2_down x else ilog2_up x)"

definition roundHalfEven :: "rat \<Rightarrow> int" where
  "roundHalfEven y =
     (let n = \<lfloor>y\<rfloor>; r = y - of_int n
      in if r < 1 / 2 then n else if 1 / 2 < r then n + 1 else if even n then n else n + 1)"

definition fl :: "rat \<Rightarrow> rat" where
  "fl x =
     (if x = 0 then 0
      else (let q = 2 powi (max (exponent \<bar>x\<bar> - 52) (- 1074))
            in sgn x * of_int (roundHalfEven (\<bar>x\<bar> / q)) * q))"

text \<open>The value of the last bit of the doubles around \<open>x\<close>.\<close>

definition quantum :: "rat \<Rightarrow> rat" where
  "quantum x = 2 powi (max (exponent \<bar>x\<bar> - 52) (- 1074))"


section \<open>Confidence score (\<^verbatim>\<open>confidenceScore.js\<close>)\<close>

text \<open>
  \<^verbatim>\<open>split\<close> on the runs of white space: the pieces between the maximal runs, with an
  empty piece before a leading run and after a trailing one.
\<close>

function splitWhiteSpace :: "jsstring \<Rightarrow> jsstring list" where
  "splitWhiteSpace [] = [[]]"
| "splitWhiteSpace (c # cs) =
     (if isWhiteSpace c then [] # splitWhiteSpace (dropWhile isWhiteSpace cs)
      else (case splitWhiteSpace cs of [] \<Rightarrow> [[c]] | l # ls \<Rightarrow> (c # l) # ls))"
  by pat_completeness auto
termination
  by (relation "measure length") (auto simp: length_dropWhile_le less_Suc_eq_le)

text \<open>\<^verbatim>\<open>Math.max(0, Math.min(1, score))\<close>\<close>

definition clamp01 :: "rat \<Rightarrow> rat" where
  "clamp01 score = max 0 (min 1 score)"

text \<open>
  The four factor scores. Every literal is the double nearest to it, and every \<^verbatim>\<open>+=\<close> and
  \<^verbatim>\<open>-=\<close> rounds. A missing or empty argument is falsy.
\<close>

definition calculateInputClarity :: "builtins \<Rightarrow> jsstring option \<Rightarrow> rat" where
  "calculateInputClarity B input =
     (case input of
        None \<Rightarrow> fl (5 / 10)
      | Some s \<Rightarrow>
          if s = [] then fl (5 / 10)
          else (let score = fl (5 / 10);
                    score = (if length s > 50 then fl (score + fl (1 / 10)) else score);
                    score = (if length s > 100 then fl (score + fl (1 / 10)) else score);
                    score = (if length s > 200 then fl (score + fl (1 / 10)) else score);
                    score = foldl (\<lambda>score indicator.
                               if str_includes (toLowerCase B s) indicator
                               then fl (score + fl (5 / 100)) else score)
                             score
                             [js ''want'', js ''need'', js ''goal'', js ''problem'', js ''decision''];
                    score = (if length s < 20 then fl (score - fl (2 / 10)) else score)
                in clamp01 score))"

definition calculateDecisionSpecificity :: "builtins \<Rightarrow> jsstring \<Rightarrow> rat" where
  "calculateDecisionSpecificity B d =
     (if d = [] then 0
      else (let score = fl (5 / 10);
                wordCount = length (splitWhiteSpace d);
                score = (if wordCount > 5 then fl (score + fl (1 / 10)) else score);
                score = (if wordCount > 10 then fl (score + fl (1 / 10)) else score);
                score = foldl (\<lambda>score verb.
                           if str_includes (toLowerCase B d) verb
                           then fl (score + fl (5 / 100)) else score)
                         score
                         [js ''create'', js ''build'', js ''implement'', js ''start'', js ''focus'',
                          js ''prioritize''];
                score = foldl (\<lambda>score word.
                           if str_includes (toLowerCase B d) word
                           then fl (score - fl (1 / 10)) else score)
                         score
                         [js ''maybe'', js ''perhaps'', js ''might'', js ''could'', js ''possibly'']
            in clamp01 score))"

text \<open>The score of one task, the body of the \<^verbatim>\<open>forEach\<close>.\<close>

definition taskScore :: "builtins \<Rightarrow> task \<Rightarrow> rat" where
  "taskScore B t =
     (let score = fl (5 / 10);
          lowerTitle = toLowerCase B (title t);
          score = (if list_ex (\<lambda>verb. prefix verb lowerTitle)
                        [js ''create'', js ''build'', js ''write'', js ''set up'', js ''implement'',
                         js ''design'', js ''review'', js ''test'', js ''deploy'', js ''configure'']
                   then fl (score + fl (2 / 10)) else score);
          score = (if list_ex isDigit (title t) then fl (score + fl (1 / 10)) else score);
          score = (if length (title t) > 10 then fl (score + fl (1 / 10)) else score);
          score = (if str_includes lowerTitle (js ''etc'') \<or> str_includes lowerTitle (js ''...'')
                   then fl (score - fl (2 / 10)) else score)
      in score)"

definition calculateTaskActionability :: "builtins \<Rightarrow> task list \<Rightarrow> rat" where
  "calculateTaskActionability B ts =
     (if ts = [] then 0
      else (let totalScore = foldl (\<lambda>totalScore t. fl (totalScore + taskScore B t)) 0 ts
            in clamp01 (fl (totalScore / of_nat (length ts)))))"

definition calculateReasoningQuality :: "builtins \<Rightarrow> jsstring \<Rightarrow> rat" where
  "calculateReasoningQuality B r =
     (if r = [] then 0
      else (let score = fl (5 / 10);
                score = foldl (\<lambda>score word.
                           if str_includes (toLowerCase B r) word
                           then fl (score + fl (1 / 10)) else score)
                         score
                         [js ''because'', js ''therefore'', js ''since'', js ''as a result'',
                          js ''this means''];
                wordCount = length (splitWhiteSpace r);
                score = (if wordCount \<ge> 10 \<and> wordCount \<le> 100 then fl (score + fl (1 / 10)) else score);
                score = (if str_includes r (js ''aligned'') then fl (score + fl (1 / 10)) else score)
            in clamp01 score))"

datatype confidence_level = high | medium | low | very_low

definition getConfidenceLevel :: "rat \<Rightarrow> confidence_level" where
  "getConfidenceLevel score =
     (if score \<ge> fl (8 / 10) then high
      else if score \<ge> fl (6 / 10) then medium
      else if score \<ge> fl (4 / 10) then low
      else very_low)"

record confidence_factors =
  inputClarity :: rat
  decisionSpecificity :: rat
  taskActionability :: rat
  reasoningQuality :: rat
  contextAvailability :: rat

record confidence =
  overall :: rat
  factors :: confidence_factors
  level :: confidence_level

text \<open>\<^verbatim>\<open>Math.round\<close>: the nearest integer, a tie going up.\<close>

definition Math_round :: "rat \<Rightarrow> int" where
  "Math_round x = \<lfloor>x + 1 / 2\<rfloor>"

text \<open>
  The loop over \<^verbatim>\<open>Object.entries(factors)\<close>, in the order of insertion, that accumulates
  \<^verbatim>\<open>totalScore\<close>.
\<close>

definition weightedTotal :: "confidence_factors \<Rightarrow> rat" where
  "weightedTotal f =
     foldl (\<lambda>totalScore (score, weight). fl (totalScore + fl (score * weight))) 0
       [(inputClarity f, fl (2 / 10)),
        (decisionSpecificity f, fl (25 / 100)),
        (taskActionability f, fl (25 / 100)),
        (reasoningQuality f, fl (2 / 10)),
        (contextAvailability f, fl (1 / 10))]"

definition calculateConfidenceScore ::
  "builtins \<Rightarrow> decision \<Rightarrow> jsstring option \<Rightarrow> bool \<Rightarrow> confidence" where
  "calculateConfidenceScore B d userInput hasContext =
     (let fs = \<lparr>inputClarity = calculateInputClarity B userInput,
                 decisionSpecificity = calculateDecisionSpecificity B (decision_text d),
                 taskActionability = calculateTaskActionability B (tasks d),
                 reasoningQuality = calculateReasoningQuality B (reasoning d),
                 contextAvailability = (if hasContext then fl (1 / 10) else 0)\<rparr>;
          totalScore = weightedTotal fs
      in \<lparr>overall = fl (of_int (Math_round (fl (totalScore * 100))) / 100),
          factors = fs,
          level = getConfidenceLevel totalScore\<rparr>)"



text \<open>A configured service for the examples, around a given client.\<close>

definition example_env :: "(llm_request \<Rightarrow> error + jsstring option) \<Rightarrow> ai_env" where
  "example_env client =
     \<lparr>PHASE_PROMPTS = (\<lambda>ph. js ''prompt''), ai_model = js ''model'', completions_create = client\<rparr>"

text \<open>An engine for the examples: \<^verbatim>\<open>JSON.parse\<close> reads the given text as the value \<open>v\<close>.\<close>

definition example_builtins :: "json \<Rightarrow> builtins" where
  "example_builtins v =
     \<lparr>JSON_parse = (\<lambda>rawResponse. Some v), exponentLead = (\<lambda>x. 0), lengthExceeds5 = (\<lambda>kvs. False),
      lowerNonAscii = (\<lambda>s. s)\<rparr>"

text \<open>A decision for the examples.\<close>

definition example_decision :: decision where
  "example_decision =
     \<lparr>decision_text = js ''Focus on X'',
      reasoning = js ''Because R. Are we aligned, or should we challenge this before moving on?'',
      tasks = [\<lparr>title = js ''Write a 1'', priority = 1\<rparr>]\<rparr>"


section \<open>Properties of the session store\<close>

lemma indexOf_PHASE_ORDER:
  "indexOf PHASE_ORDER p = (case p of DUMP \<Rightarrow> 0 | CLARITY \<Rightarrow> 1 | DECISION \<Rightarrow> 2 | PLANNING \<Rightarrow> 3 | EXECUTION \<Rightarrow> 4)"
  by (cases p) (simp_all add: PHASE_ORDER_def)

lemma phase_le_refl: "phase_le p p"
  by (simp add: phase_le_def)

lemma phase_le_trans: "phase_le p q \<Longrightarrow> phase_le q r \<Longrightarrow> phase_le p r"
  by (simp add: phase_le_def)

lemma advancePhase_step:
  assumes "sessions st sid = Some s"
  shows "(current_phase s = EXECUTION \<and> advancePhase st sid now = (None, st)) \<or>
         (current_phase s \<noteq> EXECUTION \<and>
          (\<exists>s'. advancePhase st sid now = (Some s', st\<lparr>sessions := (sessions st)(sid \<mapsto> s')\<rparr>) \<and>
                successor_of (current_phase s) (current_phase s') \<and>
                session_id s' = session_id s))"
proof (cases "current_phase s")
  case DUMP
  have "successor_of DUMP CLARITY"
    unfolding successor_of_def by (rule exI [of _ 0]) (simp add: PHASE_ORDER_def)
  with assms DUMP show ?thesis
    by (simp add: advancePhase_def indexOf_PHASE_ORDER Let_def) (simp add: PHASE_ORDER_def)
next
  case CLARITY
  have "successor_of CLARITY DECISION"
    unfolding successor_of_def by (rule exI [of _ 1]) (simp add: PHASE_ORDER_def)
  with assms CLARITY show ?thesis
    by (simp add: advancePhase_def indexOf_PHASE_ORDER Let_def) (simp add: PHASE_ORDER_def)
next
  case DECISION
  have "successor_of DECISION PLANNING"
    unfolding successor_of_def by (rule exI [of _ 2]) (simp add: PHASE_ORDER_def)
  with assms DECISION show ?thesis
    by (simp add: advancePhase_def indexOf_PHASE_ORDER Let_def) (simp add: PHASE_ORDER_def)
next
  case PLANNING
  have "successor_of PLANNING EXECUTION"
    unfolding successor_of_def by (rule exI [of _ 3]) (simp add: PHASE_ORDER_def)
  with assms PLANNING show ?thesis
    by (simp add: advancePhase_def indexOf_PHASE_ORDER Let_def) (simp add: PHASE_ORDER_def)
next
  case EXECUTION
  with assms show ?thesis
    by (simp add: advancePhase_def indexOf_PHASE_ORDER Let_def) (simp add: PHASE_ORDER_def)
qed

lemma successor_of_phase_le: "successor_of p q \<Longrightarrow> phase_le p q"
proof -
  assume "successor_of p q"
  then obtain i where i: "i < length PHASE_ORDER - 1" "PHASE_ORDER ! i = p" "PHASE_ORDER ! (i + 1) = q"
    unfolding successor_of_def by blast
  from i(1) have "i = 0 \<or> i = 1 \<or> i = 2 \<or> i = 3"
    by (auto simp: PHASE_ORDER_def)
  with i(2,3) show ?thesis
    by (auto simp: PHASE_ORDER_def phase_le_def)
qed

lemma run_op_forward:
  assumes "sessions st sid = Some s" and "fresh_op st op"
  shows "\<exists>s'. sessions (run_op st op) sid = Some s' \<and> phase_le (current_phase s) (current_phase s')"
proof (cases op)
  case (Create userId uuid now1 now2)
  with assms have "uuid \<noteq> sid" by auto
  with assms Create show ?thesis
    by (simp add: create_def Let_def phase_le_refl)
next
  case (AddMessage sessionId r content ph uuid now1 now2)
  with assms show ?thesis
    by (cases "sessions st sessionId") (auto simp: addMessage_def Let_def phase_le_refl)
next
  case (AdvancePhase sessionId now)
  show ?thesis
  proof (cases "sessions st sessionId")
    case None
    with assms AdvancePhase show ?thesis
      by (simp add: advancePhase_def phase_le_refl)
  next
    case (Some t)
    from advancePhase_step [OF Some, of now] assms AdvancePhase Some show ?thesis
      by (cases "sessionId = sid") (auto simp: phase_le_refl dest: successor_of_phase_le)
  qed
qed

lemma store_run_forward:
  assumes "store_run st ops st'" and "sessions st sid = Some s"
  shows "\<exists>s'. sessions st' sid = Some s' \<and> phase_le (current_phase s) (current_phase s')"
  using assms
proof (induction arbitrary: s rule: store_run.induct)
  case (run_nil st)
  then show ?case by (auto simp: phase_le_refl)
next
  case (run_cons st op ops st')
  from run_op_forward [OF run_cons.prems run_cons.hyps(1)]
  obtain t where t: "sessions (run_op st op) sid = Some t" "phase_le (current_phase s) (current_phase t)"
    by blast
  from run_cons.IH [OF t(1)] t(2) show ?case
    by (blast intro: phase_le_trans)
qed

text \<open>
  C4. In every reachable state of the session store and for every session in it, the
  advance operation either returns null and changes nothing, which happens exactly when
  the session is in EXECUTION, or returns the session with \<open>current_phase\<close> moved to the
  immediate successor in DUMP, CLARITY, DECISION, PLANNING, EXECUTION. Along every further
  run of create, addMessage and advancePhase the session stays in the store and its phase
  never moves backward in that order.
\<close>

theorem advancePhase_forward_only:
  assumes "reachable st" and "sessions st sid = Some s"
  shows "((current_phase s = EXECUTION \<and> advancePhase st sid now = (None, st)) \<or>
          (current_phase s \<noteq> EXECUTION \<and>
           (\<exists>s'. fst (advancePhase st sid now) = Some s' \<and>
                 sessions (snd (advancePhase st sid now)) sid = Some s' \<and>
                 successor_of (current_phase s) (current_phase s'))))
       \<and> (\<forall>ops st'. store_run st ops st' \<longrightarrow>
            (\<exists>s'. sessions st' sid = Some s' \<and> phase_le (current_phase s) (current_phase s')))"
proof
  from advancePhase_step [OF assms(2), of now]
  show "(current_phase s = EXECUTION \<and> advancePhase st sid now = (None, st)) \<or>
        (current_phase s \<noteq> EXECUTION \<and>
         (\<exists>s'. fst (advancePhase st sid now) = Some s' \<and>
               sessions (snd (advancePhase st sid now)) sid = Some s' \<and>
               successor_of (current_phase s) (current_phase s')))"
    by auto
next
  show "\<forall>ops st'. store_run st ops st' \<longrightarrow>
          (\<exists>s'. sessions st' sid = Some s' \<and> phase_le (current_phase s) (current_phase s'))"
    using store_run_forward [OF _ assms(2)] by blast
qed

theorem advancePhase_forward_only_witness:
  "reachable (snd (create empty_store None (js ''s1'') (js ''t0'') (js ''t0'')))
   \<and> sessions (snd (create empty_store None (js ''s1'') (js ''t0'') (js ''t0''))) (js ''s1'')
       = Some \<lparr>session_id = js ''s1'', user_id = None, current_phase = DUMP,
               created_at = js ''t0'', updated_at = js ''t0''\<rparr>
   \<and> (\<exists>s'. fst (advancePhase (snd (create empty_store None (js ''s1'') (js ''t0'') (js ''t0'')))
                   (js ''s1'') (js ''t1'')) = Some s'
          \<and> successor_of DUMP (current_phase s'))
   \<and> store_run (snd (create empty_store None (js ''s1'') (js ''t0'') (js ''t0'')))
         [AdvancePhase (js ''s1'') (js ''t1''), AdvancePhase (js ''s1'') (js ''t2'')]
         (run_op (run_op (snd (create empty_store None (js ''s1'') (js ''t0'') (js ''t0'')))
                    (AdvancePhase (js ''s1'') (js ''t1''))) (AdvancePhase (js ''s1'') (js ''t2'')))
   \<and> (\<exists>s'. sessions
               (run_op (run_op (snd (create empty_store None (js ''s1'') (js ''t0'') (js ''t0'')))
                    (AdvancePhase (js ''s1'') (js ''t1''))) (AdvancePhase (js ''s1'') (js ''t2'')))
               (js ''s1'') = Some s'
          \<and> phase_le DUMP (current_phase s'))"
proof -
  let ?st = "snd (create empty_store None (js ''s1'') (js ''t0'') (js ''t0''))"
  let ?s = "\<lparr>session_id = js ''s1'', user_id = None, current_phase = DUMP,
             created_at = js ''t0'', updated_at = js ''t0''\<rparr>"
  let ?ops = "[AdvancePhase (js ''s1'') (js ''t1''), AdvancePhase (js ''s1'') (js ''t2'')]"
  let ?st' = "run_op (run_op ?st (AdvancePhase (js ''s1'') (js ''t1''))) (AdvancePhase (js ''s1'') (js ''t2''))"
  have "store_run empty_store [Create None (js ''s1'') (js ''t0'') (js ''t0'')] ?st"
    by (rule run_cons) (simp_all add: empty_store_def run_nil)
  then have r: "reachable ?st"
    unfolding reachable_def by blast
  have s: "sessions ?st (js ''s1'') = Some ?s"
    by (simp add: create_def Let_def)
  have run: "store_run ?st ?ops ?st'"
    by (intro run_cons run_nil) simp_all
  from advancePhase_forward_only [OF r s, of "js ''t1''"] r s run show ?thesis
    by auto
qed

lemma dump_session_advance_rejected:
  assumes "sessions st ident = Some s" and "current_phase s = DUMP"
  shows "controller_advancePhase st ident now =
           (Inl (badRequest
              (js ''Phase 2 (CLARITY) is not yet implemented. Stay in the dump phase for now.'')), st)"
  using assms by (simp add: controller_advancePhase_def findWithMessages_def)

text \<open>
  C5. The session that create returns and stores is in phase DUMP, and the advance
  request for it is rejected, with the store unchanged, by the bad-request error whose
  message says that phase 2 (CLARITY) is not yet implemented; that message is not the
  generic ``Cannot advance from current phase''.
\<close>

theorem fresh_session_advance_rejected:
  "current_phase (fst (create st userId uuid now1 now2)) = DUMP
   \<and> sessions (snd (create st userId uuid now1 now2)) uuid = Some (fst (create st userId uuid now1 now2))
   \<and> controller_advancePhase (snd (create st userId uuid now1 now2)) uuid now =
        (Inl (AppError
               (js ''Phase 2 (CLARITY) is not yet implemented. Stay in the dump phase for now.'')
               400 (js ''BAD_REQUEST'')),
         snd (create st userId uuid now1 now2))
   \<and> js ''Phase 2 (CLARITY) is not yet implemented. Stay in the dump phase for now.''
        \<noteq> js ''Cannot advance from current phase''"
proof -
  have s: "sessions (snd (create st userId uuid now1 now2)) uuid = Some (fst (create st userId uuid now1 now2))"
    by (simp add: create_def Let_def)
  have p: "current_phase (fst (create st userId uuid now1 now2)) = DUMP"
    by (simp add: create_def Let_def)
  have "length (js ''Phase 2 (CLARITY) is not yet implemented. Stay in the dump phase for now.'')
        \<noteq> length (js ''Cannot advance from current phase'')"
    by (simp add: js_def)
  then have "js ''Phase 2 (CLARITY) is not yet implemented. Stay in the dump phase for now.''
        \<noteq> js ''Cannot advance from current phase''"
    by metis
  with dump_session_advance_rejected [OF s p, of now] s p show ?thesis
    by (simp add: badRequest_def)
qed

theorem fresh_session_advance_rejected_witness:
  "current_phase (fst (create empty_store None (js ''s1'') (js ''t0'') (js ''t0''))) = DUMP
   \<and> controller_advancePhase (snd (create empty_store None (js ''s1'') (js ''t0'') (js ''t0'')))
         (js ''s1'') (js ''t1'') =
        (Inl (AppError
               (js ''Phase 2 (CLARITY) is not yet implemented. Stay in the dump phase for now.'')
               400 (js ''BAD_REQUEST'')),
         snd (create empty_store None (js ''s1'') (js ''t0'') (js ''t0'')))"
  using fresh_session_advance_rejected [of empty_store None "js ''s1''" "js ''t0''" "js ''t0''" "js ''t1''"]
  by simp

section \<open>Properties of the response parser\<close>

lemma str_includes_iff: "str_includes s pat \<longleftrightarrow> (\<exists>ps ss. s = ps @ pat @ ss)"
proof (induction s)
  case Nil
  then show ?case by auto
next
  case (Cons c cs)
  show ?case
  proof
    assume "str_includes (c # cs) pat"
    then consider "prefix pat (c # cs)" | "str_includes cs pat" by auto
    then show "\<exists>ps ss. c # cs = ps @ pat @ ss"
    proof cases
      case 1
      then obtain ss where "c # cs = pat @ ss" by (auto simp: prefix_def)
      then have "c # cs = [] @ pat @ ss" by simp
      then show ?thesis by blast
    next
      case 2
      with Cons.IH obtain ps ss where "cs = ps @ pat @ ss" by blast
      then have "c # cs = (c # ps) @ pat @ ss" by simp
      then show ?thesis by blast
    qed
  next
    assume "\<exists>ps ss. c # cs = ps @ pat @ ss"
    then obtain ps ss where eq: "c # cs = ps @ pat @ ss" by blast
    show "str_includes (c # cs) pat"
    proof (cases ps)
      case Nil
      with eq have "prefix pat (c # cs)" by (simp add: prefix_def)
      then show ?thesis by simp
    next
      case (Cons p ps')
      with eq have "cs = ps' @ pat @ ss" by simp
      with Cons.IH have "str_includes cs pat" by blast
      then show ?thesis by simp
    qed
  qed
qed

lemma suffix_str_includes: "suffix pat s \<Longrightarrow> str_includes s pat"
  unfolding str_includes_iff suffix_def by (metis append_Nil2)

lemma trim_ends:
  "trim s = [] \<or> (\<not> isWhiteSpace (hd (trim s)) \<and> \<not> isWhiteSpace (last (trim s)))"
proof (cases "trim s = []")
  case True
  then show ?thesis by simp
next
  case False
  define d where "d = dropWhile isWhiteSpace s"
  define e where "e = dropWhile isWhiteSpace (rev d)"
  have t: "trim s = rev e" by (simp add: trim_def d_def e_def)
  with False have e: "e \<noteq> []" by simp
  then have "\<not> isWhiteSpace (hd e)" unfolding e_def by (rule hd_dropWhile)
  with e t have l: "\<not> isWhiteSpace (last (trim s))" by (simp add: last_rev)
  from e have d: "d \<noteq> []" by (auto simp: e_def)
  then have hd: "\<not> isWhiteSpace (hd d)" unfolding d_def by (rule hd_dropWhile)
  have "rev d = takeWhile isWhiteSpace (rev d) @ e" by (simp add: e_def)
  with e have "last (rev d) = last e" by (metis last_appendR)
  with d have "last e = hd d" by (simp add: last_rev)
  with e t hd have "\<not> isWhiteSpace (hd (trim s))" by (simp add: hd_rev)
  with l show ?thesis by simp
qed

lemma trim_id:
  assumes "s = [] \<or> (\<not> isWhiteSpace (hd s) \<and> \<not> isWhiteSpace (last s))"
  shows "trim s = s"
proof (cases s)
  case Nil
  then show ?thesis by (simp add: trim_def)
next
  case (Cons c cs)
  with assms have h: "\<not> isWhiteSpace (hd s)" and l: "\<not> isWhiteSpace (last s)" by auto
  from Cons h have "dropWhile isWhiteSpace s = s" by simp
  moreover have "dropWhile isWhiteSpace (rev s) = rev s"
  proof (cases "rev s")
    case Nil
    then show ?thesis by simp
  next
    case (Cons x xs)
    then have "hd (rev s) = x" by simp
    moreover from \<open>s = c # cs\<close> have "hd (rev s) = last s" by (simp add: hd_rev)
    ultimately have "\<not> isWhiteSpace x" using l by simp
    with Cons show ?thesis by simp
  qed
  ultimately show ?thesis by (simp add: trim_def)
qed

lemma trim_idem: "trim (trim s) = trim s"
  using trim_ends [of s] by (intro trim_id) 

lemma ALIGNMENT_SUFFIX_last: "ALIGNMENT_SUFFIX \<noteq> [] \<and> last ALIGNMENT_SUFFIX = 0x3F"
  by (simp add: ALIGNMENT_SUFFIX_def js_def)

lemma not_ws_simps: "\<not> isWhiteSpace 0x3F" "\<not> isWhiteSpace 0x2E"
  by (simp_all add: isWhiteSpace_def isLineTerminator_def)

lemma ensure_fresh_shape:
  assumes "\<not> str_includes r ALIGNMENT_SUFFIX"
  shows "ensureAlignmentQuestion r = trim (stripTrailingPunctuation r) @ js ''. '' @ ALIGNMENT_SUFFIX"
  using assms by (simp add: ensureAlignmentQuestion_def)

lemma ensure_includes: "str_includes (ensureAlignmentQuestion r) ALIGNMENT_SUFFIX"
proof (cases "str_includes r ALIGNMENT_SUFFIX")
  case True
  then show ?thesis by (simp add: ensureAlignmentQuestion_def)
next
  case False
  have "suffix ALIGNMENT_SUFFIX (trim (stripTrailingPunctuation r) @ js ''. '' @ ALIGNMENT_SUFFIX)"
    by (simp add: suffix_def) 
  then show ?thesis
    using False by (simp add: ensure_fresh_shape suffix_str_includes)
qed

lemma ensure_idem: "ensureAlignmentQuestion (ensureAlignmentQuestion r) = ensureAlignmentQuestion r"
  using ensure_includes [of r] by (simp add: ensureAlignmentQuestion_def [of "ensureAlignmentQuestion r"])

lemma trim_ensure_trim: "trim (ensureAlignmentQuestion (trim r)) = ensureAlignmentQuestion (trim r)"
proof (cases "str_includes (trim r) ALIGNMENT_SUFFIX")
  case True
  then show ?thesis by (simp add: ensureAlignmentQuestion_def trim_idem)
next
  case False
  define t where "t = trim (stripTrailingPunctuation (trim r))"
  have shape: "ensureAlignmentQuestion (trim r) = t @ js ''. '' @ ALIGNMENT_SUFFIX"
    using False by (simp add: ensure_fresh_shape t_def)
  have l: "last (t @ js ''. '' @ ALIGNMENT_SUFFIX) = 0x3F"
    using ALIGNMENT_SUFFIX_last by simp
  have h: "\<not> isWhiteSpace (hd (t @ js ''. '' @ ALIGNMENT_SUFFIX))"
  proof (cases "t = []")
    case True
    then show ?thesis by (simp add: js_def not_ws_simps)
  next
    case False
    with trim_ends [of "stripTrailingPunctuation (trim r)"] show ?thesis
      by (simp add: t_def)
  qed
  show ?thesis unfolding shape
    by (rule trim_id) (use h l not_ws_simps in simp)
qed

text \<open>
  C8. A reasoning string that ends with the alignment suffix is returned unchanged, so the
  suffix is never appended twice: \<open>ensureAlignmentQuestion\<close> is idempotent, and so is the
  parser's whole transformation of the reasoning, trimming followed by
  \<open>ensureAlignmentQuestion\<close>.
\<close>

theorem ensureAlignmentQuestion_idempotent:
  "(suffix ALIGNMENT_SUFFIX r \<longrightarrow> ensureAlignmentQuestion r = r)
   \<and> ensureAlignmentQuestion (ensureAlignmentQuestion r) = ensureAlignmentQuestion r
   \<and> ensureAlignmentQuestion (trim (ensureAlignmentQuestion (trim r))) = ensureAlignmentQuestion (trim r)"
  by (simp add: ensure_idem trim_ensure_trim) (simp add: ensureAlignmentQuestion_def suffix_str_includes)

theorem ensureAlignmentQuestion_idempotent_witness:
  "suffix ALIGNMENT_SUFFIX (js ''Focus on X. Are we aligned, or should we challenge this before moving on?'')
   \<and> ensureAlignmentQuestion (js ''Focus on X. Are we aligned, or should we challenge this before moving on?'')
       = js ''Focus on X. Are we aligned, or should we challenge this before moving on?''"
proof -
  have s: "suffix ALIGNMENT_SUFFIX (js ''Focus on X. Are we aligned, or should we challenge this before moving on?'')"
    by (simp add: ALIGNMENT_SUFFIX_def js_def suffix_def)
  with ensureAlignmentQuestion_idempotent
    [of "js ''Focus on X. Are we aligned, or should we challenge this before moving on?''"]
  show ?thesis by simp
qed

lemma ensure_focus: "ensureAlignmentQuestion (js ''Focus on X'')
   = js ''Focus on X. Are we aligned, or should we challenge this before moving on?''"
  by (simp add: ensureAlignmentQuestion_def ALIGNMENT_SUFFIX_def js_def trim_def
       stripTrailingPunctuation_def isWhiteSpace_def isLineTerminator_def)

lemma js_eq_Nil: "js s = [] \<longleftrightarrow> s = []"
  by (simp add: js_def)

text \<open>
  C3, at a reply whose reasoning holds the alignment question followed by one more word:
  the parser accepts the reply and returns the reasoning as it is, because
  \<open>ensureAlignmentQuestion\<close> asks whether the question occurs in the text, not whether the
  text ends with it. The returned reasoning does not end with the alignment question.
\<close>

theorem parseDecisionResponse_suffix_inside:
  \<open>parseDecisionResponse
     (example_builtins
        (JObject [(js ''decision'', JString (js ''Do X'')),
                  (js ''reasoning'', JString (js ''Are we aligned, or should we challenge this before moving on? Yes'')),
                  (js ''tasks'', JArray [JObject [(js ''title'', JString (js ''a'')), (js ''priority'', JNumber 1)]])]))
     (js ''{"decision":"Do X","reasoning":"Are we aligned, or should we challenge this before moving on? Yes","tasks":[{"title":"a","priority":1}]}'')
   = Inr \<lparr>decision_text = js ''Do X'',
           reasoning = js ''Are we aligned, or should we challenge this before moving on? Yes'',
           tasks = [\<lparr>title = js ''a'', priority = 1\<rparr>]\<rparr>
   \<and> \<not> suffix ALIGNMENT_SUFFIX (js ''Are we aligned, or should we challenge this before moving on? Yes'')\<close>
proof -
  have inc: "str_includes (js ''Are we aligned, or should we challenge this before moving on? Yes'') ALIGNMENT_SUFFIX"
    by (simp add: ALIGNMENT_SUFFIX_def js_def)
  have tr: "trim (js ''Are we aligned, or should we challenge this before moving on? Yes'')
      = js ''Are we aligned, or should we challenge this before moving on? Yes''"
    by (rule trim_id) (simp add: js_def isWhiteSpace_def isLineTerminator_def)
  have tr2: "trim (js ''Do X'') = js ''Do X''" "trim (js ''a'') = js ''a''"
    by (rule trim_id, simp add: js_def isWhiteSpace_def isLineTerminator_def)+
  have keys: "js ''decision'' \<noteq> js ''reasoning''" "js ''decision'' \<noteq> js ''tasks''"
    "js ''reasoning'' \<noteq> js ''tasks''" "js ''reasoning'' \<noteq> js ''decision''"
    "js ''tasks'' \<noteq> js ''decision''" "js ''tasks'' \<noteq> js ''reasoning''"
    "js ''title'' \<noteq> js ''priority''" "js ''priority'' \<noteq> js ''title''"
    by (simp_all add: js_def)
  have nosuf: "\<not> suffix ALIGNMENT_SUFFIX (js ''Are we aligned, or should we challenge this before moving on? Yes'')"
    by (simp add: suffix_to_prefix ALIGNMENT_SUFFIX_def js_def)
  show ?thesis
    using inc tr tr2 keys nosuf
    by (simp add: parseDecisionResponse_def example_builtins_def validateDecisionStructure_def
          isString_def isArray_def lengthGreater5_def invalidPriority_def normalizeTasks_def
          renumber_def parseInt10_def ensureAlignmentQuestion_def js_eq_Nil)
qed























section \<open>Properties of the input normalizer\<close>

lemma collapseWhiteSpace_id: "\<forall>c\<in>set s. \<not> isWhiteSpace c \<Longrightarrow> collapseWhiteSpace s = s"
  by (induction s) simp_all

lemma normalizeInput_clean:
  assumes "s \<noteq> []"
    and "\<forall>c\<in>set s. \<not> isWhiteSpace c \<and> \<not> isControl c \<and> c \<noteq> 0x2013 \<and> c \<noteq> 0x2014"
  shows "normalizeInput (Some (JString s)) = s"
proof -
  from assms have "\<not> isWhiteSpace (hd s)" "\<not> isWhiteSpace (last s)" by auto
  then have t: "trim s = s" by (intro trim_id) simp
  from assms(2) have c: "collapseWhiteSpace s = s" by (intro collapseWhiteSpace_id) simp
  from assms(2) have f: "filter (\<lambda>c. \<not> isControl c) s = s" by (intro filter_True) simp
  have q: "replaceClass (\<lambda>c. c = 0x22) 0x22 s = s" "replaceClass (\<lambda>c. c = 0x27) 0x27 s = s"
    by (simp_all add: replaceClass_def map_idI)
  from assms(2) have d: "replaceClass (\<lambda>c. c = 0x2013 \<or> c = 0x2014) 0x2D s = s"
    by (auto simp: replaceClass_def intro: map_idI)
  from assms(1) t c f q d show ?thesis by (simp add: normalizeInput_def)
qed

lemma validation_messages_distinct:
  "js ''Input is too short (minimum 3 characters)'' \<noteq> js ''Input is too long (maximum 10000 characters)''"
  "js ''Input is too short (minimum 3 characters)'' \<noteq> js ''Input must contain text''"
  "js ''Input is too long (maximum 10000 characters)'' \<noteq> js ''Input must contain text''"
  "js ''Input is too long (maximum 10000 characters)'' \<noteq> js ''Input is too short (minimum 3 characters)''"
  "js ''Input must contain text'' \<noteq> js ''Input is too short (minimum 3 characters)''"
  "js ''Input must contain text'' \<noteq> js ''Input is too long (maximum 10000 characters)''"
  by (simp_all add: js_def)

lemma validateInput_string:
  assumes "s \<noteq> []"
  shows "validateInput (Some (JString s)) =
    (let n = normalizeInput (Some (JString s));
         es = (if length n < 3 then [js ''Input is too short (minimum 3 characters)''] else [])
            @ (if length n > 10000 then [js ''Input is too long (maximum 10000 characters)''] else [])
            @ (if \<not> list_ex isAsciiLetter n then [js ''Input must contain text''] else [])
     in \<lparr>valid = (es = []), errors = es,
         normalized = (if es = [] then Some (JString n) else Some JNull)\<rparr>)"
  using assms by (simp add: validateInput_def Let_def)

lemma validateInput_hi:
  "validateInput (Some (JString (js ''hi''))) =
     \<lparr>valid = False, errors = [js ''Input is too short (minimum 3 characters)''],
      normalized = Some JNull\<rparr>"
proof -
  have n: "normalizeInput (Some (JString (js ''hi''))) = js ''hi''"
    by (rule normalizeInput_clean)
       (simp_all add: js_def isWhiteSpace_def isLineTerminator_def isControl_def)
  have l: "list_ex isAsciiLetter (js ''hi'')" "length (js ''hi'') = 2"
    by (simp_all add: js_def isAsciiLetter_def)
  have "js ''hi'' \<noteq> []" by (simp add: js_def)
  from validateInput_string [OF this] n l show ?thesis by (simp add: Let_def)
qed

lemma validateInput_11000:
  "validateInput (Some (JString (replicate 11000 0x61))) =
     \<lparr>valid = False, errors = [js ''Input is too long (maximum 10000 characters)''],
      normalized = Some JNull\<rparr>"
proof -
  have ne: "replicate 11000 (0x61::nat) \<noteq> []" by simp
  have n: "normalizeInput (Some (JString (replicate 11000 0x61))) = replicate 11000 0x61"
    by (rule normalizeInput_clean [OF ne])
       (simp add: isWhiteSpace_def isLineTerminator_def isControl_def)
  have l: "list_ex isAsciiLetter (replicate 11000 0x61)"
    by (simp add: list_ex_iff isAsciiLetter_def)
  from validateInput_string [OF ne] n l show ?thesis by (simp add: Let_def)
qed

text \<open>
  C7, as the code has it. A falsy input (\<^verbatim>\<open>undefined\<close>, \<^verbatim>\<open>null\<close>, \<^verbatim>\<open>false\<close>,
  \<open>0\<close>, the empty string) fails with the single error ``Input is required''; a truthy
  input that is not a string fails with the single error ``Input must be a string''; both
  results have no \<open>normalized\<close> property. A non-empty string gets the too-short error
  exactly when its normalized length is below 3, the too-long error exactly when it is
  above 10000 and the no-text error exactly when the normalized string has no ASCII
  letter, and no other error; it is valid exactly when there is no error, and
  \<open>normalized\<close> is the normalized string when valid and \<^verbatim>\<open>null\<close> otherwise. The input
  \<open>hi\<close> fails with the too-short error alone and the input of 11000 letters \<open>a\<close> with the
  too-long error alone.
\<close>

theorem validateInput_cases:
  "(\<not> truthy input \<longrightarrow>
      validateInput input = \<lparr>valid = False, errors = [js ''Input is required''], normalized = None\<rparr>)
   \<and> (truthy input \<and> \<not> isString input \<longrightarrow>
      validateInput input = \<lparr>valid = False, errors = [js ''Input must be a string''], normalized = None\<rparr>)
   \<and> (truthy input \<and> isString input \<longrightarrow>
        (js ''Input is too short (minimum 3 characters)'' \<in> set (errors (validateInput input))
           \<longleftrightarrow> length (normalizeInput input) < 3)
      \<and> (js ''Input is too long (maximum 10000 characters)'' \<in> set (errors (validateInput input))
           \<longleftrightarrow> length (normalizeInput input) > 10000)
      \<and> (js ''Input must contain text'' \<in> set (errors (validateInput input))
           \<longleftrightarrow> \<not> list_ex isAsciiLetter (normalizeInput input))
      \<and> set (errors (validateInput input)) \<subseteq>
           {js ''Input is too short (minimum 3 characters)'',
            js ''Input is too long (maximum 10000 characters)'',
            js ''Input must contain text''}
      \<and> valid (validateInput input) = (errors (validateInput input) = [])
      \<and> normalized (validateInput input) =
           (if valid (validateInput input) then Some (JString (normalizeInput input)) else Some JNull))
   \<and> validateInput (Some (JString (js ''hi''))) =
        \<lparr>valid = False, errors = [js ''Input is too short (minimum 3 characters)''],
         normalized = Some JNull\<rparr>
   \<and> validateInput (Some (JString (replicate 11000 0x61))) =
        \<lparr>valid = False, errors = [js ''Input is too long (maximum 10000 characters)''],
         normalized = Some JNull\<rparr>"
proof (intro conjI impI)
  assume "\<not> truthy input"
  then show "validateInput input = \<lparr>valid = False, errors = [js ''Input is required''], normalized = None\<rparr>"
    by (simp add: validateInput_def)
next
  assume "truthy input \<and> \<not> isString input"
  then show "validateInput input = \<lparr>valid = False, errors = [js ''Input must be a string''], normalized = None\<rparr>"
    by (auto simp: validateInput_def isString_def split: option.splits json.splits)
next
  assume a: "truthy input \<and> isString input"
  then obtain s where s: "input = Some (JString s)" "s \<noteq> []"
    by (auto simp: isString_def split: option.splits json.splits)
  note v = validateInput_string [OF s(2), folded s(1)]
  show "js ''Input is too short (minimum 3 characters)'' \<in> set (errors (validateInput input))
           \<longleftrightarrow> length (normalizeInput input) < 3"
    by (simp add: v Let_def validation_messages_distinct)
  show "js ''Input is too long (maximum 10000 characters)'' \<in> set (errors (validateInput input))
           \<longleftrightarrow> length (normalizeInput input) > 10000"
    by (simp add: v Let_def validation_messages_distinct)
  show "js ''Input must contain text'' \<in> set (errors (validateInput input))
           \<longleftrightarrow> \<not> list_ex isAsciiLetter (normalizeInput input)"
    by (simp add: v Let_def validation_messages_distinct)
  show "set (errors (validateInput input)) \<subseteq>
           {js ''Input is too short (minimum 3 characters)'',
            js ''Input is too long (maximum 10000 characters)'',
            js ''Input must contain text''}"
    by (auto simp: v Let_def)
  show "valid (validateInput input) = (errors (validateInput input) = [])"
    by (simp add: v Let_def)
  show "normalized (validateInput input) =
           (if valid (validateInput input) then Some (JString (normalizeInput input)) else Some JNull)"
    by (simp add: v Let_def)
next
  show "validateInput (Some (JString (js ''hi''))) =
        \<lparr>valid = False, errors = [js ''Input is too short (minimum 3 characters)''],
         normalized = Some JNull\<rparr>"
    by (rule validateInput_hi)
next
  show "validateInput (Some (JString (replicate 11000 0x61))) =
        \<lparr>valid = False, errors = [js ''Input is too long (maximum 10000 characters)''],
         normalized = Some JNull\<rparr>"
    by (rule validateInput_11000)
qed

theorem validateInput_cases_witness:
  "truthy (Some (JString (js ''I need a plan''))) \<and> isString (Some (JString (js ''I need a plan'')))
   \<and> valid (validateInput (Some (JString (js ''I need a plan''))))
   \<and> normalized (validateInput (Some (JString (js ''I need a plan''))))
       = Some (JString (js ''I need a plan''))
   \<and> \<not> truthy (Some (JString []))
   \<and> validateInput (Some (JString [])) =
       \<lparr>valid = False, errors = [js ''Input is required''], normalized = None\<rparr>
   \<and> truthy (Some (JNumber 42)) \<and> \<not> isString (Some (JNumber 42))
   \<and> validateInput (Some (JNumber 42)) =
       \<lparr>valid = False, errors = [js ''Input must be a string''], normalized = None\<rparr>"
proof -
  let ?x = "Some (JString (js ''I need a plan''))"
  have t: "truthy ?x" "isString ?x" by (simp_all add: js_def isString_def)
  have n: "normalizeInput ?x = js ''I need a plan''"
    by (simp add: normalizeInput_def js_def trim_def isWhiteSpace_def isLineTerminator_def
          isControl_def replaceClass_def)
  have l: "list_ex isAsciiLetter (js ''I need a plan'')" "length (js ''I need a plan'') = 13"
    by (simp_all add: js_def isAsciiLetter_def)
  have e: "errors (validateInput ?x) = []"
  proof (rule ccontr)
    assume "errors (validateInput ?x) \<noteq> []"
    then obtain m where m: "m \<in> set (errors (validateInput ?x))"
      by (cases "errors (validateInput ?x)") auto
    with validateInput_cases [of ?x] t n l show False by auto
  qed
  have t2: "\<not> truthy (Some (JString []))" "truthy (Some (JNumber 42))" "\<not> isString (Some (JNumber 42))"
    by (simp_all add: isString_def)
  from validateInput_cases [of ?x] validateInput_cases [of "Some (JString [])"]
    validateInput_cases [of "Some (JNumber 42)"] t t2 n e
  show ?thesis by simp
qed

text \<open>
  C7 as stated fails at the empty string, whose normalized length is 0 and which gets no
  too-short error, and at \<^verbatim>\<open>null\<close>, which is not a string and gets no type error.
\<close>

theorem validateInput_counterexample:
  "length (normalizeInput (Some (JString []))) < 3
   \<and> js ''Input is too short (minimum 3 characters)'' \<notin> set (errors (validateInput (Some (JString []))))
   \<and> \<not> isString (Some JNull)
   \<and> js ''Input must be a string'' \<notin> set (errors (validateInput (Some JNull)))"
  by (simp add: normalizeInput_def validateInput_def isString_def js_def)


section \<open>Properties of the priority service\<close>

text \<open>
  C9, at the task list that the priority endpoint reads back after it stored priority 5
  for task \<open>a\<close> of a decision with the two tasks \<open>a\<close> and \<open>b\<close>: the counter of the loop
  only reaches 2, never equals the new priority, and the target task is not put back.
  The result holds task \<open>b\<close> alone.
\<close>

theorem reorderTasks_drops_target:
  "reorderTasks [\<lparr>task_id = js ''b'', task_priority = 2\<rparr>, \<lparr>task_id = js ''a'', task_priority = 5\<rparr>]
     (js ''a'') 5
   = [\<lparr>task_id = js ''b'', task_priority = 1\<rparr>]"
proof -
  have ne: "js ''b'' \<noteq> js ''a''" by (simp add: js_def)
  show ?thesis
    using ne by (simp add: reorderTasks_def Let_def)
qed


section \<open>Properties of the phase rule engine\<close>

declare generatePhaseResponse.simps [simp del]

lemma generatePhaseResponse_throw:
  assumes "completions_create E (phaseRequest E ph h) = Inl e"
  shows "generatePhaseResponse E ph h a = ([phaseRequest E ph h], Inl e)"
  using assms by (subst generatePhaseResponse.simps) simp

lemma generatePhaseResponse_accept:
  assumes "completions_create E (phaseRequest E ph h) = Inr c" and "\<not> rejected ph (completionContent c)"
  shows "generatePhaseResponse E ph h a =
           ([phaseRequest E ph h],
            Inr \<lparr>content = completionContent c, validationPassed = True,
                 regenerated = (a > 1), response_violations = None\<rparr>)"
  using assms by (subst generatePhaseResponse.simps) (auto simp: rejected_def)

lemma generatePhaseResponse_give_up:
  assumes "completions_create E (phaseRequest E ph h) = Inr c" and "rejected ph (completionContent c)"
    and "\<not> a < MAX_ATTEMPTS"
  shows "generatePhaseResponse E ph h a =
           ([phaseRequest E ph h],
            Inr \<lparr>content = completionContent c, validationPassed = False,
                 regenerated = (a > 1),
                 response_violations = Some (violations (checkDumpPhaseViolations (completionContent c)))\<rparr>)"
  using assms by (subst generatePhaseResponse.simps) (auto simp: rejected_def)

lemma generatePhaseResponse_retry:
  assumes "completions_create E (phaseRequest E ph h) = Inr c" and "rejected ph (completionContent c)"
    and "a < MAX_ATTEMPTS"
  shows "generatePhaseResponse E ph h a =
           (phaseRequest E ph h # fst (generatePhaseResponse E ph (h @ [REMINDER]) (a + 1)),
            snd (generatePhaseResponse E ph (h @ [REMINDER]) (a + 1)))"
  using assms by (subst generatePhaseResponse.simps) (auto simp: rejected_def split: prod.splits)

text \<open>What a run from attempt \<open>a\<close> looks like: the summary that the lemmas below share.\<close>

lemma generatePhaseResponse_run:
  "\<exists>n. let calls = fst (generatePhaseResponse E ph h a); out = snd (generatePhaseResponse E ph h a) in
     length calls = Suc n \<and> n \<le> MAX_ATTEMPTS - a
   \<and> (\<forall>k \<le> n. calls ! k = phaseRequest E ph (h @ replicate k REMINDER))
   \<and> (\<forall>k < n. \<exists>c. completions_create E (calls ! k) = Inr c \<and> rejected ph (completionContent c))
   \<and> (case completions_create E (calls ! n) of
         Inl e \<Rightarrow> out = Inl e
       | Inr c \<Rightarrow>
           out = Inr \<lparr>content = completionContent c,
                      validationPassed = (\<not> rejected ph (completionContent c)),
                      regenerated = (a + n > 1),
                      response_violations =
                        (if rejected ph (completionContent c)
                         then Some (violations (checkDumpPhaseViolations (completionContent c)))
                         else None)\<rparr>
           \<and> (rejected ph (completionContent c) \<longrightarrow> \<not> a + n < MAX_ATTEMPTS))"
proof (induction E ph h a rule: generatePhaseResponse.induct)
  case (1 E ph h a)
  show ?case
  proof (cases "completions_create E (phaseRequest E ph h)")
    case (Inl e)
    show ?thesis
      by (rule exI [of _ 0]) (simp add: generatePhaseResponse_throw [OF Inl] Inl)
  next
    case (Inr c)
    show ?thesis
    proof (cases "rejected ph (completionContent c)")
      case False
      show ?thesis
        by (rule exI [of _ 0]) (simp add: generatePhaseResponse_accept [OF Inr False] Inr False)
    next
      case True
      show ?thesis
      proof (cases "a < MAX_ATTEMPTS")
        case False
        show ?thesis
          by (rule exI [of _ 0]) (simp add: generatePhaseResponse_give_up [OF Inr True False] Inr True False)
      next
        case less: True
        from True have cond: "ph = DUMP \<and>
             (hasViolations (checkDumpPhaseViolations (completionContent c)) \<or>
              \<not> isValid (checkResponseLength (completionContent c)))"
          by (simp add: rejected_def)
        from "1.IH" [OF Inr cond less] obtain n where n:
          "let calls = fst (generatePhaseResponse E ph (h @ [REMINDER]) (a + 1));
               out = snd (generatePhaseResponse E ph (h @ [REMINDER]) (a + 1)) in
           length calls = Suc n \<and> n \<le> MAX_ATTEMPTS - (a + 1)
           \<and> (\<forall>k \<le> n. calls ! k = phaseRequest E ph ((h @ [REMINDER]) @ replicate k REMINDER))
           \<and> (\<forall>k < n. \<exists>c. completions_create E (calls ! k) = Inr c \<and> rejected ph (completionContent c))
           \<and> (case completions_create E (calls ! n) of
                 Inl e \<Rightarrow> out = Inl e
               | Inr c \<Rightarrow>
                   out = Inr \<lparr>content = completionContent c,
                              validationPassed = (\<not> rejected ph (completionContent c)),
                              regenerated = (a + 1 + n > 1),
                              response_violations =
                                (if rejected ph (completionContent c)
                                 then Some (violations (checkDumpPhaseViolations (completionContent c)))
                                 else None)\<rparr>
                   \<and> (rejected ph (completionContent c) \<longrightarrow> \<not> a + 1 + n < MAX_ATTEMPTS))"
          by blast
        define calls' where "calls' = fst (generatePhaseResponse E ph (h @ [REMINDER]) (a + 1))"
        define out' where "out' = snd (generatePhaseResponse E ph (h @ [REMINDER]) (a + 1))"
        note r = generatePhaseResponse_retry [OF Inr True less, folded calls'_def out'_def]
        note n' = n [unfolded Let_def, folded calls'_def out'_def]
        note len = n' [THEN conjunct1]
        note bound = n' [THEN conjunct2, THEN conjunct1]
        note reqs = n' [THEN conjunct2, THEN conjunct2, THEN conjunct1]
        note rej = n' [THEN conjunct2, THEN conjunct2, THEN conjunct2, THEN conjunct1]
        note fin = n' [THEN conjunct2, THEN conjunct2, THEN conjunct2, THEN conjunct2]
        have "length (phaseRequest E ph h # calls') = Suc (Suc n)" using len by simp
        moreover have "Suc n \<le> MAX_ATTEMPTS - a" using bound less by simp
        moreover have "\<forall>k \<le> Suc n. (phaseRequest E ph h # calls') ! k = phaseRequest E ph (h @ replicate k REMINDER)"
        proof (intro allI impI)
          fix k assume "k \<le> Suc n"
          then show "(phaseRequest E ph h # calls') ! k = phaseRequest E ph (h @ replicate k REMINDER)"
            using reqs by (cases k) (simp_all add: replicate_app_Cons_same)
        qed
        moreover have "\<forall>k < Suc n. \<exists>c. completions_create E ((phaseRequest E ph h # calls') ! k) = Inr c
              \<and> rejected ph (completionContent c)"
        proof (intro allI impI)
          fix k assume "k < Suc n"
          then show "\<exists>c. completions_create E ((phaseRequest E ph h # calls') ! k) = Inr c
              \<and> rejected ph (completionContent c)"
            using rej Inr True by (cases k) simp_all
        qed
        moreover have "(case completions_create E ((phaseRequest E ph h # calls') ! Suc n) of
                 Inl e \<Rightarrow> out' = Inl e
               | Inr c \<Rightarrow>
                   out' = Inr \<lparr>content = completionContent c,
                              validationPassed = (\<not> rejected ph (completionContent c)),
                              regenerated = (a + Suc n > 1),
                              response_violations =
                                (if rejected ph (completionContent c)
                                 then Some (violations (checkDumpPhaseViolations (completionContent c)))
                                 else None)\<rparr>
                   \<and> (rejected ph (completionContent c) \<longrightarrow> \<not> a + Suc n < MAX_ATTEMPTS))"
          using fin by (auto split: sum.splits)
        ultimately show ?thesis
          unfolding r Let_def fst_conv snd_conv by (intro exI [of _ "Suc n"] conjI)
      qed
    qed
  qed
qed


lemma question_mark_matches:
  assumes "c \<noteq> []" and "last c = 0x3F"
  shows "regex_test (Seq (Chr (\<lambda>c. c = 0x3F)) LineEnd) c"
proof -
  from assms obtain xs where c: "c = xs @ [0x3F]"
    by (metis append_butlast_last_id)
  have "length xs \<in> set [0..<Suc (length c)]" by (simp add: c)
  moreover have "ends (Seq (Chr (\<lambda>c. c = 0x3F)) LineEnd) (rev (take (length xs) c), drop (length xs) c) \<noteq> []"
    by (simp add: c)
  ultimately show ?thesis
    unfolding regex_test_def list_ex_iff by blast
qed

lemma question_mark_violation:
  assumes "c \<noteq> []" and "last c = 0x3F"
  shows "hasViolations (checkDumpPhaseViolations c) \<and> violations (checkDumpPhaseViolations c) \<noteq> []"
  using question_mark_matches [OF assms]
  by (simp add: checkDumpPhaseViolations_def DUMP_PHASE_VIOLATIONS_def Let_def)

lemma empty_reply_checks:
  "violations (checkDumpPhaseViolations []) = []" "\<not> hasViolations (checkDumpPhaseViolations [])"
  "\<not> isValid (checkResponseLength [])"
  by (simp_all add: checkDumpPhaseViolations_def DUMP_PHASE_VIOLATIONS_def Let_def regex_test_def
        lit_i_def alts_def checkResponseLength_def trim_def)


text \<open>
  C1, as the code has it, for every client and every conversation history in the DUMP
  phase. \<open>calls\<close> are the requests sent to the client and \<open>out\<close> is the result.
  \<^item> There are at least one and at most three calls; call number \<open>k\<close> (from 0) carries
    the history followed by \<open>k\<close> copies of the corrective system reminder, and every call
    but the last got a reply that was rejected.
  \<^item> A reply that ends in a question mark is rejected, and when it answers one of the
    first two calls a further call follows, with one more reminder appended.
  \<^item> The result is an error exactly when the last call threw it. Otherwise it carries the
    content of the last reply, \<open>regenerated\<close> is true exactly when more than one call was
    made, and \<open>validationPassed\<close> is true exactly when the last reply passes the
    forbidden-content check and the length check; then there is no violation list.
  \<^item> When \<open>validationPassed\<close> is false, three calls were made and the result lists the
    violations of the forbidden-content check of the last reply: a list that is non-empty
    exactly when that check fails, in particular when the reply ends in a question mark,
    and empty when only the length check fails.
  \<^item> When the replies to all three calls are rejected, the result is such a flagged one.
\<close>

theorem generatePhaseResponse_protocol:
  assumes "generatePhaseResponse E DUMP history 1 = (calls, out)"
  shows "1 \<le> length calls \<and> length calls \<le> 3
    \<and> (\<forall>k < length calls. calls ! k = phaseRequest E DUMP (history @ replicate k REMINDER))
    \<and> (\<forall>k. Suc k < length calls \<longrightarrow>
          (\<exists>c. completions_create E (calls ! k) = Inr c \<and> rejected DUMP (completionContent c)))
    \<and> (\<forall>k c. k < length calls \<and> Suc k < 3 \<and> completions_create E (calls ! k) = Inr c
             \<and> completionContent c \<noteq> [] \<and> last (completionContent c) = 0x3F
          \<longrightarrow> rejected DUMP (completionContent c) \<and> Suc k < length calls
              \<and> calls ! Suc k = phaseRequest E DUMP (history @ replicate (Suc k) REMINDER))
    \<and> (\<forall>e. out = Inl e \<longleftrightarrow> completions_create E (last calls) = Inl e)
    \<and> (\<forall>r. out = Inr r \<longrightarrow>
          (\<exists>c. completions_create E (last calls) = Inr c \<and> content r = completionContent c)
        \<and> regenerated r = (length calls > 1)
        \<and> validationPassed r = (\<not> rejected DUMP (content r))
        \<and> (validationPassed r \<longrightarrow> response_violations r = None)
        \<and> (\<not> validationPassed r \<longrightarrow>
              length calls = 3
            \<and> response_violations r = Some (violations (checkDumpPhaseViolations (content r)))
            \<and> (violations (checkDumpPhaseViolations (content r)) \<noteq> []
                 \<longleftrightarrow> hasViolations (checkDumpPhaseViolations (content r)))
            \<and> (content r \<noteq> [] \<and> last (content r) = 0x3F
                 \<longrightarrow> violations (checkDumpPhaseViolations (content r)) \<noteq> [])))
    \<and> ((\<forall>k<3. \<exists>c. completions_create E (phaseRequest E DUMP (history @ replicate k REMINDER)) = Inr c
                 \<and> rejected DUMP (completionContent c))
         \<longrightarrow> length calls = 3 \<and> (\<exists>r. out = Inr r \<and> \<not> validationPassed r))"
proof -
  have fs: "fst (generatePhaseResponse E DUMP history 1) = calls"
    "snd (generatePhaseResponse E DUMP history 1) = out"
    using assms by simp_all
  from generatePhaseResponse_run [of E DUMP history 1, unfolded Let_def fs]
  obtain n where n: "length calls = Suc n \<and> n \<le> MAX_ATTEMPTS - 1
   \<and> (\<forall>k \<le> n. calls ! k = phaseRequest E DUMP (history @ replicate k REMINDER))
   \<and> (\<forall>k < n. \<exists>c. completions_create E (calls ! k) = Inr c \<and> rejected DUMP (completionContent c))
   \<and> (case completions_create E (calls ! n) of
         Inl e \<Rightarrow> out = Inl e
       | Inr c \<Rightarrow>
           out = Inr \<lparr>content = completionContent c,
                      validationPassed = (\<not> rejected DUMP (completionContent c)),
                      regenerated = (1 + n > 1),
                      response_violations =
                        (if rejected DUMP (completionContent c)
                         then Some (violations (checkDumpPhaseViolations (completionContent c)))
                         else None)\<rparr>
           \<and> (rejected DUMP (completionContent c) \<longrightarrow> \<not> 1 + n < MAX_ATTEMPTS))"
    by (elim exE) (rule that)
  note len = n [THEN conjunct1]
  note bound = n [THEN conjunct2, THEN conjunct1]
  note reqs = n [THEN conjunct2, THEN conjunct2, THEN conjunct1]
  note rej = n [THEN conjunct2, THEN conjunct2, THEN conjunct2, THEN conjunct1]
  note fin = n [THEN conjunct2, THEN conjunct2, THEN conjunct2, THEN conjunct2]
  have last: "last calls = calls ! n"
    using len by (metis diff_Suc_1 last_conv_nth length_0_conv nat.distinct(1))
  have c1: "1 \<le> length calls \<and> length calls \<le> 3"
    using len bound by (simp add: MAX_ATTEMPTS_def)
  have c2: "\<forall>k < length calls. calls ! k = phaseRequest E DUMP (history @ replicate k REMINDER)"
    using reqs len by simp
  have c3: "\<forall>k. Suc k < length calls \<longrightarrow>
          (\<exists>c. completions_create E (calls ! k) = Inr c \<and> rejected DUMP (completionContent c))"
    using rej len by simp
  have c4: "\<forall>k c. k < length calls \<and> Suc k < 3 \<and> completions_create E (calls ! k) = Inr c
             \<and> completionContent c \<noteq> [] \<and> last (completionContent c) = 0x3F
          \<longrightarrow> rejected DUMP (completionContent c) \<and> Suc k < length calls
              \<and> calls ! Suc k = phaseRequest E DUMP (history @ replicate (Suc k) REMINDER)"
  proof (intro allI impI)
    fix k c
    assume a: "k < length calls \<and> Suc k < 3 \<and> completions_create E (calls ! k) = Inr c
             \<and> completionContent c \<noteq> [] \<and> last (completionContent c) = 0x3F"
    then have r: "rejected DUMP (completionContent c)"
      using question_mark_violation [of "completionContent c"] by (simp add: rejected_def)
    have "k \<noteq> n"
    proof
      assume "k = n"
      with a fin r have "\<not> 1 + n < MAX_ATTEMPTS" by simp
      with a \<open>k = n\<close> show False by (simp add: MAX_ATTEMPTS_def)
    qed
    with a len have "Suc k < length calls" by simp
    with r c2 show "rejected DUMP (completionContent c) \<and> Suc k < length calls
              \<and> calls ! Suc k = phaseRequest E DUMP (history @ replicate (Suc k) REMINDER)"
      by blast
  qed
  have c5: "\<forall>e. out = Inl e \<longleftrightarrow> completions_create E (last calls) = Inl e"
    using fin unfolding last by (auto split: sum.splits)
  have c6: "\<forall>r. out = Inr r \<longrightarrow>
          (\<exists>c. completions_create E (last calls) = Inr c \<and> content r = completionContent c)
        \<and> regenerated r = (length calls > 1)
        \<and> validationPassed r = (\<not> rejected DUMP (content r))
        \<and> (validationPassed r \<longrightarrow> response_violations r = None)
        \<and> (\<not> validationPassed r \<longrightarrow>
              length calls = 3
            \<and> response_violations r = Some (violations (checkDumpPhaseViolations (content r)))
            \<and> (violations (checkDumpPhaseViolations (content r)) \<noteq> []
                 \<longleftrightarrow> hasViolations (checkDumpPhaseViolations (content r)))
            \<and> (content r \<noteq> [] \<and> last (content r) = 0x3F
                 \<longrightarrow> violations (checkDumpPhaseViolations (content r)) \<noteq> []))"
  proof (intro allI impI)
    fix r assume o: "out = Inr r"
    with fin obtain c where c: "completions_create E (calls ! n) = Inr c"
      and r: "r = \<lparr>content = completionContent c,
                      validationPassed = (\<not> rejected DUMP (completionContent c)),
                      regenerated = (1 + n > 1),
                      response_violations =
                        (if rejected DUMP (completionContent c)
                         then Some (violations (checkDumpPhaseViolations (completionContent c)))
                         else None)\<rparr>"
      and stop: "rejected DUMP (completionContent c) \<longrightarrow> \<not> 1 + n < MAX_ATTEMPTS"
      by (auto split: sum.splits)
    have n3: "rejected DUMP (completionContent c) \<longrightarrow> length calls = 3"
      using stop bound len by (auto simp: MAX_ATTEMPTS_def)
    have hv: "violations (checkDumpPhaseViolations (completionContent c)) \<noteq> []
                 \<longleftrightarrow> hasViolations (checkDumpPhaseViolations (completionContent c))"
      by (simp add: checkDumpPhaseViolations_def Let_def)
    have q: "completionContent c \<noteq> [] \<and> last (completionContent c) = 0x3F
                 \<longrightarrow> violations (checkDumpPhaseViolations (completionContent c)) \<noteq> []"
      using question_mark_violation [of "completionContent c"] by simp
    show "(\<exists>c. completions_create E (last calls) = Inr c \<and> content r = completionContent c)
        \<and> regenerated r = (length calls > 1)
        \<and> validationPassed r = (\<not> rejected DUMP (content r))
        \<and> (validationPassed r \<longrightarrow> response_violations r = None)
        \<and> (\<not> validationPassed r \<longrightarrow>
              length calls = 3
            \<and> response_violations r = Some (violations (checkDumpPhaseViolations (content r)))
            \<and> (violations (checkDumpPhaseViolations (content r)) \<noteq> []
                 \<longleftrightarrow> hasViolations (checkDumpPhaseViolations (content r)))
            \<and> (content r \<noteq> [] \<and> last (content r) = 0x3F
                 \<longrightarrow> violations (checkDumpPhaseViolations (content r)) \<noteq> []))"
      using c n3 hv q len unfolding last r by auto
  qed
  have c7: "(\<forall>k<3. \<exists>c. completions_create E (phaseRequest E DUMP (history @ replicate k REMINDER)) = Inr c
                 \<and> rejected DUMP (completionContent c))
         \<longrightarrow> length calls = 3 \<and> (\<exists>r. out = Inr r \<and> \<not> validationPassed r)"
  proof
    assume a: "\<forall>k<3. \<exists>c. completions_create E (phaseRequest E DUMP (history @ replicate k REMINDER)) = Inr c
                 \<and> rejected DUMP (completionContent c)"
    from bound have "n < 3" by (simp add: MAX_ATTEMPTS_def)
    with a reqs obtain c where c: "completions_create E (calls ! n) = Inr c"
      "rejected DUMP (completionContent c)"
      by (metis order_refl)
    with fin have "out = Inr \<lparr>content = completionContent c,
                      validationPassed = False,
                      regenerated = (1 + n > 1),
                      response_violations =
                         Some (violations (checkDumpPhaseViolations (completionContent c)))\<rparr>"
      and "\<not> 1 + n < MAX_ATTEMPTS"
      by simp_all
    with bound len show "length calls = 3 \<and> (\<exists>r. out = Inr r \<and> \<not> validationPassed r)"
      by (auto simp: MAX_ATTEMPTS_def)
  qed
  from c1 [THEN conjunct1] c1 [THEN conjunct2] c2 c3 c4 c5 c6 c7 show ?thesis by (intro conjI)
qed


theorem generatePhaseResponse_protocol_witness:
  "length (fst (generatePhaseResponse (example_env (\<lambda>request. Inr (Some (js ''Why?'')))) DUMP [] 1)) = 3
   \<and> (\<exists>r. snd (generatePhaseResponse (example_env (\<lambda>request. Inr (Some (js ''Why?'')))) DUMP [] 1) = Inr r
          \<and> \<not> validationPassed r \<and> regenerated r \<and> content r = js ''Why?''
          \<and> response_violations r = Some (violations (checkDumpPhaseViolations (js ''Why?'')))
          \<and> violations (checkDumpPhaseViolations (js ''Why?'')) \<noteq> [])"
proof -
  define E where "E = example_env (\<lambda>request. Inr (Some (js ''Why?'')))"
  define calls where "calls = fst (generatePhaseResponse E DUMP [] 1)"
  define out where "out = snd (generatePhaseResponse E DUMP [] 1)"
  have h: "generatePhaseResponse E DUMP [] 1 = (calls, out)"
    by (simp add: calls_def out_def)
  have cc: "completionContent (Some (js ''Why?'')) = js ''Why?''"
    unfolding completionContent_def option.case
    by (rule trim_id) (simp add: js_def isWhiteSpace_def isLineTerminator_def)
  have q: "js ''Why?'' \<noteq> []" "last (js ''Why?'') = 0x3F"
    by (simp_all add: js_def)
  have client: "completions_create E request = Inr (Some (js ''Why?''))" for request
    by (simp add: E_def example_env_def)
  note T = generatePhaseResponse_protocol [OF h]
  note T5 = T [THEN conjunct2, THEN conjunct2, THEN conjunct2, THEN conjunct2, THEN conjunct1]
  note T7 = T [THEN conjunct2, THEN conjunct2, THEN conjunct2, THEN conjunct2, THEN conjunct2,
               THEN conjunct2, THEN conjunct1]
  note T8 = T [THEN conjunct2, THEN conjunct2, THEN conjunct2, THEN conjunct2, THEN conjunct2,
               THEN conjunct2, THEN conjunct2]
  from T [THEN conjunct1] have "0 < length calls" by auto
  with T5 [rule_format, of 0 "Some (js ''Why?'')"] client cc q
  have rj: "rejected DUMP (js ''Why?'')" by simp
  have "\<forall>k<3. \<exists>c. completions_create E (phaseRequest E DUMP ([] @ replicate k REMINDER)) = Inr c
                 \<and> rejected DUMP (completionContent c)"
    using client cc rj by simp
  with T8 obtain r where l: "length calls = 3" and r: "out = Inr r" "\<not> validationPassed r"
    by blast
  from T7 [rule_format, OF r(1)] r(2) client cc q l
  have "regenerated r \<and> content r = js ''Why?''
          \<and> response_violations r = Some (violations (checkDumpPhaseViolations (js ''Why?'')))
          \<and> violations (checkDumpPhaseViolations (js ''Why?'')) \<noteq> []"
    by auto
  with l r show ?thesis
    unfolding calls_def out_def E_def by blast
qed

text \<open>
  C1 as stated fails for a client whose completions have no text: the empty content has
  no line, so the length check rejects it three times, and no forbidden pattern matches
  it: the flagged result carries an empty violation list.
\<close>

theorem generatePhaseResponse_empty_violations_counterexample:
  "length (fst (generatePhaseResponse (example_env (\<lambda>request. Inr None)) DUMP [] 1)) = 3
   \<and> snd (generatePhaseResponse (example_env (\<lambda>request. Inr None)) DUMP [] 1)
       = Inr \<lparr>content = [], validationPassed = False, regenerated = True,
              response_violations = Some []\<rparr>
   \<and> \<not> isValid (checkResponseLength [])"
proof -
  define E where "E = example_env (\<lambda>request. Inr None)"
  have client: "completions_create E request = Inr None" for request
    by (simp add: E_def example_env_def)
  have rj: "rejected DUMP (completionContent None)"
    by (simp add: rejected_def completionContent_def empty_reply_checks)
  have lt: "(1::nat) < MAX_ATTEMPTS" "(1::nat) + 1 < MAX_ATTEMPTS" "\<not> (1::nat) + 1 + 1 < MAX_ATTEMPTS"
    by (simp_all add: MAX_ATTEMPTS_def)
  note a1 = generatePhaseResponse_retry [OF client rj lt(1), where h = "[]"]
  note a2 = generatePhaseResponse_retry [OF client rj lt(2), where h = "[] @ [REMINDER]"]
  note a3 = generatePhaseResponse_give_up [OF client rj lt(3), where h = "([] @ [REMINDER]) @ [REMINDER]"]
  show ?thesis
    unfolding E_def [symmetric] a1 a2 a3
    by (simp add: empty_reply_checks completionContent_def)
qed

text \<open>
  C10. For an existing session, \<open>processMessage\<close> stores the user message and then
  generates the response from a history that holds it. When the generation fails, which
  it does whenever the client throws on the first request, the error is the result, and
  the store has changed: the log of the session is the old log followed by the user
  message, with no assistant message. When the generation succeeds, the log is the old
  log followed by the user message and the assistant message.
\<close>

theorem processMessage_user_message_first:
  assumes "sessions st sessionId = Some session"
    and "processMessage E st sessionId userContent (uuid1, now1, now1') (uuid2, now2, now2') = (result, st')"
  shows "\<exists>log userMessage history.
       log = (case messages st sessionId of None \<Rightarrow> [] | Some ms \<Rightarrow> ms)
     \<and> userMessage = \<lparr>message_id = uuid1, message_session_id = sessionId, message_role = user,
                       message_content = userContent, message_phase = current_phase session,
                       message_created_at = now1\<rparr>
     \<and> history = (case messages st sessionId of None \<Rightarrow> [] | Some ms \<Rightarrow> map toChat (ms @ [userMessage]))
                  @ [\<lparr>chat_role = user, chat_content = userContent\<rparr>]
     \<and> (case result of
           Inl e \<Rightarrow>
             snd (generatePhaseResponse E (current_phase session) history 1) = Inl e
             \<and> messages st' sessionId = Some (log @ [userMessage])
             \<and> messages st' sessionId \<noteq> messages st sessionId
         | Inr r \<Rightarrow>
             (\<exists>response assistantMessage.
                snd (generatePhaseResponse E (current_phase session) history 1) = Inr response
              \<and> assistantMessage = \<lparr>message_id = uuid2, message_session_id = sessionId,
                     message_role = assistant, message_content = content response,
                     message_phase = current_phase session, message_created_at = now2\<rparr>
              \<and> messages st' sessionId = Some (log @ [userMessage, assistantMessage])
              \<and> result_message r = Some assistantMessage))
     \<and> (\<forall>e. completions_create E (phaseRequest E (current_phase session) history) = Inl e
            \<longrightarrow> result = Inl e)"
proof -
  define log where "log = (case messages st sessionId of None \<Rightarrow> [] | Some ms \<Rightarrow> ms)"
  define userMessage where "userMessage = \<lparr>message_id = uuid1, message_session_id = sessionId,
      message_role = user, message_content = userContent, message_phase = current_phase session,
      message_created_at = now1\<rparr>"
  define history where "history =
      (case messages st sessionId of None \<Rightarrow> [] | Some ms \<Rightarrow> map toChat (ms @ [userMessage]))
      @ [\<lparr>chat_role = user, chat_content = userContent\<rparr>]"
  define st1 where "st1 = st\<lparr>messages := (messages st)(sessionId \<mapsto> log @ [userMessage]),
      sessions := (sessions st)(sessionId \<mapsto> session\<lparr>updated_at := now1'\<rparr>)\<rparr>"
  have add1: "addMessage st sessionId user userContent (current_phase session) uuid1 now1 now1'
      = (Some userMessage, st1)"
    using assms(1) by (simp add: addMessage_def Let_def log_def userMessage_def st1_def)
  have hist: "map toChat (case messages st sessionId of None \<Rightarrow> []
                | Some ms \<Rightarrow> (case messages st1 sessionId of None \<Rightarrow> [] | Some ms1 \<Rightarrow> ms1))
              @ [\<lparr>chat_role = user, chat_content = userContent\<rparr>] = history"
    by (simp add: history_def st1_def log_def split: option.splits)
  have pm: "processMessage E st sessionId userContent (uuid1, now1, now1') (uuid2, now2, now2') =
      (case snd (generatePhaseResponse E (current_phase session) history 1) of
         Inl e \<Rightarrow> (Inl e, st1)
       | Inr response \<Rightarrow>
           (case addMessage st1 sessionId assistant (content response) (current_phase session)
                   uuid2 now2 now2' of
              (savedMessage, st2) \<Rightarrow>
                (Inr \<lparr>result_message = savedMessage, result_phase = current_phase session,
                      result_validationPassed = validationPassed response,
                      result_regenerated = regenerated response\<rparr>, st2)))"
    using assms(1) by (simp add: processMessage_def findWithMessages_def add1 hist Let_def)
  have m1: "messages st1 sessionId = Some (log @ [userMessage])"
    "sessions st1 sessionId = Some (session\<lparr>updated_at := now1'\<rparr>)"
    by (simp_all add: st1_def)
  have changed: "Some (log @ [userMessage]) \<noteq> messages st sessionId"
    by (simp add: log_def split: option.splits)
  have main: "case result of
           Inl e \<Rightarrow>
             snd (generatePhaseResponse E (current_phase session) history 1) = Inl e
             \<and> messages st' sessionId = Some (log @ [userMessage])
             \<and> messages st' sessionId \<noteq> messages st sessionId
         | Inr r \<Rightarrow>
             (\<exists>response assistantMessage.
                snd (generatePhaseResponse E (current_phase session) history 1) = Inr response
              \<and> assistantMessage = \<lparr>message_id = uuid2, message_session_id = sessionId,
                     message_role = assistant, message_content = content response,
                     message_phase = current_phase session, message_created_at = now2\<rparr>
              \<and> messages st' sessionId = Some (log @ [userMessage, assistantMessage])
              \<and> result_message r = Some assistantMessage)"
  proof (cases "snd (generatePhaseResponse E (current_phase session) history 1)")
    case (Inl e)
    with pm assms(2) have "result = Inl e" "st' = st1" by simp_all
    with Inl m1 changed show ?thesis by simp
  next
    case (Inr response)
    with pm assms(2) m1 show ?thesis
      by (auto simp: addMessage_def Let_def)
  qed
  have throws: "\<forall>e. completions_create E (phaseRequest E (current_phase session) history) = Inl e
            \<longrightarrow> result = Inl e"
  proof (intro allI impI)
    fix e assume "completions_create E (phaseRequest E (current_phase session) history) = Inl e"
    then have "snd (generatePhaseResponse E (current_phase session) history 1) = Inl e"
      by (simp add: generatePhaseResponse_throw)
    with pm assms(2) show "result = Inl e" by simp
  qed
  from main throws show ?thesis
    unfolding log_def userMessage_def history_def by blast
qed

theorem processMessage_user_message_first_witness:
  "sessions (snd (create empty_store None (js ''s1'') (js ''t0'') (js ''t0''))) (js ''s1'')
     = Some \<lparr>session_id = js ''s1'', user_id = None, current_phase = DUMP,
             created_at = js ''t0'', updated_at = js ''t0''\<rparr>
   \<and> fst (processMessage (example_env (\<lambda>request. Inl (Error (js ''timeout''))))
           (snd (create empty_store None (js ''s1'') (js ''t0'') (js ''t0'')))
           (js ''s1'') (js ''hello'') (js ''m1'', js ''t1'', js ''t1'') (js ''m2'', js ''t2'', js ''t2''))
       = Inl (Error (js ''timeout''))
   \<and> messages (snd (processMessage (example_env (\<lambda>request. Inl (Error (js ''timeout''))))
           (snd (create empty_store None (js ''s1'') (js ''t0'') (js ''t0'')))
           (js ''s1'') (js ''hello'') (js ''m1'', js ''t1'', js ''t1'') (js ''m2'', js ''t2'', js ''t2'')))
        (js ''s1'')
       = Some [\<lparr>message_id = js ''m1'', message_session_id = js ''s1'', message_role = user,
                message_content = js ''hello'', message_phase = DUMP,
                message_created_at = js ''t1''\<rparr>]"
proof -
  let ?st = "snd (create empty_store None (js ''s1'') (js ''t0'') (js ''t0''))"
  let ?E = "example_env (\<lambda>request. Inl (Error (js ''timeout'')))"
  let ?s = "\<lparr>session_id = js ''s1'', user_id = None, current_phase = DUMP,
             created_at = js ''t0'', updated_at = js ''t0''\<rparr>"
  let ?p = "processMessage ?E ?st (js ''s1'') (js ''hello'') (js ''m1'', js ''t1'', js ''t1'')
              (js ''m2'', js ''t2'', js ''t2'')"
  have s: "sessions ?st (js ''s1'') = Some ?s"
    by (simp add: create_def Let_def)
  have m: "messages ?st (js ''s1'') = Some []"
    by (simp add: create_def Let_def)
  have p: "?p = (fst ?p, snd ?p)" by simp
  have client: "completions_create ?E request = Inl (Error (js ''timeout''))" for request
    by (simp add: example_env_def)
  from processMessage_user_message_first [OF s p] client m
  have "fst ?p = Inl (Error (js ''timeout''))" by auto
  with processMessage_user_message_first [OF s p] m s show ?thesis
    by auto
qed

section \<open>Properties of the double arithmetic\<close>

lemma floor_rat_numeral [simp]: "\<lfloor>numeral a / numeral b :: rat\<rfloor> = numeral a div numeral b"
  by (metis floor_divide_of_int_eq of_int_numeral)

lemma fl_1_10: "fl (1/10) = 3602879701896397 / 36028797018963968"
  by (simp add: fl_def exponent_def ilog2_down.simps ilog2_up.simps roundHalfEven_def Let_def)

lemma two_powi_Suc: "(2::rat) powi (e + 1) = 2 powi e * 2"
  by (simp add: power_int_add)

lemma ilog2_up_spec:
  "1 \<le> x \<Longrightarrow> 2 powi (ilog2_up x) \<le> x \<and> x < 2 powi (ilog2_up x + 1)"
proof (induction x rule: ilog2_up.induct)
  case (1 x)
  show ?case
  proof (cases "2 \<le> x")
    case True
    then have "1 \<le> x / 2" by simp
    from "1.IH" [OF True this] have "2 powi (ilog2_up (x / 2)) * 2 \<le> x"
      "x < 2 powi (ilog2_up (x / 2) + 1) * 2"
      by (simp_all add: field_simps)
    then have "2 powi (ilog2_up (x / 2) + 1) \<le> x" "x < 2 powi (ilog2_up (x / 2) + 1 + 1)"
      unfolding two_powi_Suc [of "ilog2_up (x / 2)"] two_powi_Suc [of "ilog2_up (x / 2) + 1"]
      by blast+
    moreover have "ilog2_up x = ilog2_up (x / 2) + 1"
      using True by (subst ilog2_up.simps) simp
    ultimately show ?thesis
      by (simp only:)
  next
    case False
    then have "ilog2_up x = 0" by (subst ilog2_up.simps) simp
    with False "1.prems" show ?thesis by simp
  qed
qed

lemma ilog2_down_spec:
  "0 < x \<Longrightarrow> x < 1 \<Longrightarrow> 2 powi (ilog2_down x) \<le> x \<and> x < 2 powi (ilog2_down x + 1)"
proof (induction x rule: ilog2_down.induct)
  case (1 x)
  from "1.prems" have c: "0 < x \<and> x < 1" by simp
  have e: "ilog2_down x = ilog2_down (x * 2) - 1"
    using c by (subst ilog2_down.simps) simp
  show ?case
  proof (cases "x * 2 < 1")
    case True
    from "1.IH" [OF c _ True] c have "2 powi (ilog2_down (x * 2)) \<le> x * 2"
      "x * 2 < 2 powi (ilog2_down (x * 2) + 1)"
      by simp_all
    then have "2 powi (ilog2_down (x * 2) - 1) * 2 \<le> x * 2"
      "x * 2 < 2 powi (ilog2_down (x * 2) - 1 + 1) * 2"
      using two_powi_Suc [of "ilog2_down (x * 2) - 1"] two_powi_Suc [of "ilog2_down (x * 2)"]
      by simp_all
    then show ?thesis unfolding e by simp
  next
    case False
    then have "ilog2_down (x * 2) = 0" by (subst ilog2_down.simps) simp
    with e have "ilog2_down x = - 1" by simp
    with False c show ?thesis by simp
  qed
qed

lemma exponent_spec:
  assumes "0 < x"
  shows "2 powi (exponent x) \<le> x \<and> x < 2 powi (exponent x + 1)"
  using assms ilog2_up_spec [of x] ilog2_down_spec [of x]
  by (cases "x < 1") (simp_all add: exponent_def)

lemma exponent_mono:
  assumes "0 < x" "x \<le> y"
  shows "exponent x \<le> exponent y"
proof (rule ccontr)
  assume "\<not> exponent x \<le> exponent y"
  then have "exponent y + 1 \<le> exponent x" by simp
  then have "(2::rat) powi (exponent y + 1) \<le> 2 powi (exponent x)"
    by (intro power_int_increasing) simp_all
  moreover from assms have "y < 2 powi (exponent y + 1)" "2 powi (exponent x) \<le> x"
    using exponent_spec [of x] exponent_spec [of y] by simp_all
  ultimately show False using assms by linarith
qed

lemma roundHalfEven_of_int [simp]: "roundHalfEven (of_int k) = k"
  by (simp add: roundHalfEven_def)

lemma roundHalfEven_bounds: "\<lfloor>y\<rfloor> \<le> roundHalfEven y \<and> roundHalfEven y \<le> \<lfloor>y\<rfloor> + 1"
  by (simp add: roundHalfEven_def Let_def)

lemma roundHalfEven_mono:
  assumes "y \<le> z"
  shows "roundHalfEven y \<le> roundHalfEven z"
proof (cases "\<lfloor>y\<rfloor> = \<lfloor>z\<rfloor>")
  case True
  with assms have "y - of_int \<lfloor>y\<rfloor> \<le> z - of_int \<lfloor>z\<rfloor>" by simp
  with True show ?thesis
    by (auto simp: roundHalfEven_def Let_def)
next
  case False
  with assms have "\<lfloor>y\<rfloor> < \<lfloor>z\<rfloor>"
    by (metis floor_mono le_neq_trans)
  with roundHalfEven_bounds [of y] roundHalfEven_bounds [of z] show ?thesis
    by linarith
qed

lemma quantum_pos: "0 < quantum x"
  by (simp add: quantum_def)

lemma fl_pos_eq: "0 < x \<Longrightarrow> fl x = of_int (roundHalfEven (x / quantum x)) * quantum x"
  by (simp add: fl_def quantum_def Let_def)

lemma fl_0 [simp]: "fl 0 = 0"
  by (simp add: fl_def)

lemma fl_nonneg:
  assumes "0 \<le> x"
  shows "0 \<le> fl x"
proof (cases "x = 0")
  case True
  then show ?thesis by simp
next
  case False
  with assms have x: "0 < x" by simp
  have "0 \<le> x / quantum x" using x quantum_pos [of x] by simp
  then have "0 \<le> \<lfloor>x / quantum x\<rfloor>" by simp
  with roundHalfEven_bounds [of "x / quantum x"] have "0 \<le> roundHalfEven (x / quantum x)"
    by linarith
  with quantum_pos [of x] show ?thesis
    by (simp add: fl_pos_eq [OF x])
qed

lemma fl_mono_pos:
  assumes "0 < x" "x \<le> y"
  shows "fl x \<le> fl y"
proof -
  from assms have y: "0 < y" by simp
  define ex where "ex = max (exponent x - 52) (- 1074)"
  define ey where "ey = max (exponent y - 52) (- 1074)"
  have qx: "quantum x = 2 powi ex" and qy: "quantum y = 2 powi ey"
    using assms y by (simp_all add: quantum_def ex_def ey_def)
  have le: "ex \<le> ey"
    using exponent_mono [OF assms] by (simp add: ex_def ey_def)
  show ?thesis
  proof (cases "ex = ey")
    case True
    then have q: "quantum x = quantum y" by (simp add: qx qy)
    have "x / quantum y \<le> y / quantum y"
      using assms quantum_pos [of y] by (simp add: divide_right_mono)
    then have "roundHalfEven (x / quantum y) \<le> roundHalfEven (y / quantum y)"
      by (rule roundHalfEven_mono)
    then have "of_int (roundHalfEven (x / quantum y)) * quantum y
        \<le> of_int (roundHalfEven (y / quantum y)) * quantum y"
      using quantum_pos [of y] by simp
    then show ?thesis
      by (simp add: fl_pos_eq [OF assms(1)] fl_pos_eq [OF y] q)
  next
    case False
    with le have lt: "ex < ey" by simp
    then have ey: "ey = exponent y - 52" and xy: "exponent x < exponent y"
      by (auto simp: ex_def ey_def)
    from lt ey have d: "0 \<le> exponent y - ex" by simp
    have up: "x < 2 powi (exponent y)"
    proof -
      from xy have "exponent x + 1 \<le> exponent y" by simp
      then have "(2::rat) powi (exponent x + 1) \<le> 2 powi (exponent y)"
        by (intro power_int_increasing) simp_all
      with exponent_spec [OF assms(1)] show ?thesis by linarith
    qed
    have split: "(2::rat) powi (exponent y) = 2 powi (exponent y - ex) * 2 powi ex"
      by (simp add: power_int_add [symmetric])
    have int: "(2::rat) powi (exponent y - ex) = of_int (2 ^ nat (exponent y - ex))"
      using d by (simp add: power_int_def)
    have "x / 2 powi ex \<le> 2 powi (exponent y - ex)"
      using up split by (simp add: field_simps)
    then have "roundHalfEven (x / 2 powi ex) \<le> roundHalfEven (of_int (2 ^ nat (exponent y - ex)))"
      unfolding int by (rule roundHalfEven_mono)
    then have "of_int (roundHalfEven (x / 2 powi ex)) \<le> (2::rat) powi (exponent y - ex)"
      unfolding int roundHalfEven_of_int by simp
    then have "of_int (roundHalfEven (x / 2 powi ex)) * 2 powi ex \<le> (2::rat) powi (exponent y)"
      unfolding split by simp
    then have fx: "fl x \<le> 2 powi (exponent y)"
      by (simp add: fl_pos_eq [OF assms(1)] qx)
    have split2: "(2::rat) powi (exponent y) = 2 powi 52 * 2 powi ey"
      using power_int_add [of "2::rat" 52 "exponent y - 52"] by (simp add: ey)
    have "2 powi (exponent y) \<le> y" using exponent_spec [OF y] by simp
    then have "(2::rat) powi 52 \<le> y / 2 powi ey"
      using split2 by (simp add: field_simps)
    then have "roundHalfEven (of_int (2 ^ 52)) \<le> roundHalfEven (y / 2 powi ey)"
      by (intro roundHalfEven_mono) simp
    then have "(2 ^ 52 :: int) \<le> roundHalfEven (y / 2 powi ey)"
      unfolding roundHalfEven_of_int .
    then have "(of_int (2 ^ 52) :: rat) \<le> of_int (roundHalfEven (y / 2 powi ey))"
      by (rule iffD2 [OF of_int_le_iff])
    then have "(2::rat) powi 52 \<le> of_int (roundHalfEven (y / 2 powi ey))"
      by simp
    then have "(2::rat) powi (exponent y) \<le> of_int (roundHalfEven (y / 2 powi ey)) * 2 powi ey"
      unfolding split2 by simp
    then have "2 powi (exponent y) \<le> fl y"
      by (simp add: fl_pos_eq [OF y] qy)
    with fx show ?thesis by linarith
  qed
qed

lemma fl_mono:
  assumes "0 \<le> x" "x \<le> y"
  shows "fl x \<le> fl y"
proof (cases "x = 0")
  case True
  with assms fl_nonneg [of y] show ?thesis by simp
next
  case False
  with assms show ?thesis by (intro fl_mono_pos) simp_all
qed

lemma fl_1 [simp]: "fl 1 = 1"
  by (simp add: fl_def exponent_def ilog2_down.simps ilog2_up.simps roundHalfEven_def Let_def)


section \<open>Properties of the confidence scorer\<close>

lemmas fl_eval = fl_def exponent_def ilog2_down.simps ilog2_up.simps roundHalfEven_def Let_def

lemma literals:
  "fl (5 / 10) = 1 / 2"
  "fl (1 / 10) = 3602879701896397 / 36028797018963968"
  "fl (2 / 10) = 3602879701896397 / 18014398509481984"
  "fl (25 / 100) = 1 / 4"
  "fl (5 / 100) = 3602879701896397 / 72057594037927936"
  "fl (4 / 10) = 3602879701896397 / 9007199254740992"
  "fl (6 / 10) = 5404319552844595 / 9007199254740992"
  "fl (8 / 10) = 3602879701896397 / 4503599627370496"
  by (simp_all add: fl_eval)

lemma example_ascii:
  "toLowerCase B (js ''Focus on X'') = js ''focus on x''"
  "toLowerCase B (js ''Write a 1'') = js ''write a 1''"
  "toLowerCase B (js ''Because R. Are we aligned, or should we challenge this before moving on?'')
     = js ''because r. are we aligned, or should we challenge this before moving on?''"
  by (simp_all add: toLowerCase_def js_def)

lemma example_specificity:
  "calculateDecisionSpecificity B (js ''Focus on X'') = 2476979795053773 / 4503599627370496"
proof -
  have w: "splitWhiteSpace (js ''Focus on X'') = [js ''Focus'', js ''on'', js ''X'']"
    by (simp add: js_def isWhiteSpace_def isLineTerminator_def)
  have i: "str_includes (js ''focus on x'') (js ''focus'')"
    "\<not> str_includes (js ''focus on x'') (js ''create'')"
    "\<not> str_includes (js ''focus on x'') (js ''build'')"
    "\<not> str_includes (js ''focus on x'') (js ''implement'')"
    "\<not> str_includes (js ''focus on x'') (js ''start'')"
    "\<not> str_includes (js ''focus on x'') (js ''prioritize'')"
    "\<not> str_includes (js ''focus on x'') (js ''maybe'')"
    "\<not> str_includes (js ''focus on x'') (js ''perhaps'')"
    "\<not> str_includes (js ''focus on x'') (js ''might'')"
    "\<not> str_includes (js ''focus on x'') (js ''could'')"
    "\<not> str_includes (js ''focus on x'') (js ''possibly'')"
    by (simp_all add: js_def)
  have n: "js ''Focus on X'' \<noteq> []" by (simp add: js_def)
  show ?thesis
    using n by (simp add: calculateDecisionSpecificity_def example_ascii w i clamp01_def)
      (simp add: fl_eval)
qed


lemma example_actionability:
  "calculateTaskActionability B [\<lparr>title = js ''Write a 1'', priority = 1\<rparr>]
     = 7205759403792793 / 9007199254740992"
proof -
  have p: "list_ex (\<lambda>verb. prefix verb (js ''write a 1''))
             [js ''create'', js ''build'', js ''write'', js ''set up'', js ''implement'',
              js ''design'', js ''review'', js ''test'', js ''deploy'', js ''configure'']"
    by (simp add: js_def)
  have d: "list_ex isDigit (js ''Write a 1'')" "length (js ''Write a 1'') = 9"
    by (simp_all add: js_def isDigit_def)
  have i: "\<not> str_includes (js ''write a 1'') (js ''etc'')"
    "\<not> str_includes (js ''write a 1'') (js ''...'')"
    by (simp_all add: js_def)
  have ts: "taskScore B \<lparr>title = js ''Write a 1'', priority = 1\<rparr>
      = fl (fl (fl (5 / 10) + fl (2 / 10)) + fl (1 / 10))"
    unfolding taskScore_def Let_def task.simps example_ascii
    using p d i by (simp only: if_True if_False simp_thms) simp
  show ?thesis
    by (simp add: calculateTaskActionability_def ts clamp01_def) (simp add: fl_eval)
qed

lemma example_quality:
  "calculateReasoningQuality B
     (js ''Because R. Are we aligned, or should we challenge this before moving on?'')
     = 7205759403792793 / 9007199254740992"
proof -
  let ?r = "js ''Because R. Are we aligned, or should we challenge this before moving on?''"
  let ?l = "js ''because r. are we aligned, or should we challenge this before moving on?''"
  have w: "length (splitWhiteSpace ?r) = 13"
    by (simp add: js_def isWhiteSpace_def isLineTerminator_def)
  have i: "str_includes ?l (js ''because'')"
    "\<not> str_includes ?l (js ''therefore'')"
    "\<not> str_includes ?l (js ''since'')"
    "\<not> str_includes ?l (js ''as a result'')"
    "\<not> str_includes ?l (js ''this means'')"
    "str_includes ?r (js ''aligned'')"
    by (simp_all add: js_def)
  have n: "?r \<noteq> []" by (simp add: js_def)
  have "calculateReasoningQuality B ?r
      = clamp01 (fl (fl (fl (fl (5 / 10) + fl (1 / 10)) + fl (1 / 10)) + fl (1 / 10)))"
    unfolding calculateReasoningQuality_def Let_def example_ascii foldl.simps w
    using n i by (simp only: if_True if_False simp_thms) simp
  then show ?thesis
    by (simp add: clamp01_def) (simp add: fl_eval)
qed

lemma example_factors:
  "factors (calculateConfidenceScore B example_decision None False)
     = \<lparr>inputClarity = 1 / 2,
        decisionSpecificity = 2476979795053773 / 4503599627370496,
        taskActionability = 7205759403792793 / 9007199254740992,
        reasoningQuality = 7205759403792793 / 9007199254740992,
        contextAvailability = 0\<rparr>"
  by (simp add: calculateConfidenceScore_def example_decision_def example_specificity
        example_actionability example_quality calculateInputClarity_def Let_def)
     (simp add: fl_eval)

lemma example_total:
  "weightedTotal
     \<lparr>inputClarity = 1 / 2,
      decisionSpecificity = 2476979795053773 / 4503599627370496,
      taskActionability = 7205759403792793 / 9007199254740992,
      reasoningQuality = 7205759403792793 / 9007199254740992,
      contextAvailability = 0\<rparr>
   = 5381801554707743 / 9007199254740992"
  by (simp add: weightedTotal_def) (simp add: fl_eval)

lemma example_overall:
  "fl (of_int (Math_round (fl (5381801554707743 / 9007199254740992 * 100))) / 100)
     = 5404319552844595 / 9007199254740992"
proof -
  have a: "5381801554707743 / 9007199254740992 * 100 = (134545038867693575 / 2251799813685248 :: rat)"
    by simp
  have b: "fl (134545038867693575 / 2251799813685248) = 239 / 4"
    by (simp add: fl_eval)
  have c: "Math_round (239 / 4) = 60"
    by (simp add: Math_round_def)
  have d: "fl (of_int 60 / 100) = 5404319552844595 / 9007199254740992"
    by (simp add: fl_eval)
  show ?thesis
    by (simp only: a b c d)
qed

text \<open>
  C6, against the claim as stated: the level is not read off \<open>overall\<close>. For the example
  decision, without user input and without context, the weighted sum is a double just below
  0.6, about 0.5975. \<open>overall\<close> is that sum rounded to two decimals, the double 0.6, which is
  at least the threshold 0.6 and below 0.8; but the level is \<open>low\<close>, not \<open>medium\<close>.
\<close>

theorem level_overall_counterexample:
  "overall (calculateConfidenceScore (example_builtins JNull) example_decision None False)
     = 5404319552844595 / 9007199254740992
   \<and> fl (6 / 10) \<le> overall (calculateConfidenceScore (example_builtins JNull) example_decision None False)
   \<and> overall (calculateConfidenceScore (example_builtins JNull) example_decision None False) < fl (8 / 10)
   \<and> level (calculateConfidenceScore (example_builtins JNull) example_decision None False) = low
   \<and> level (calculateConfidenceScore (example_builtins JNull) example_decision None False) \<noteq> medium"
proof -
  let ?c = "calculateConfidenceScore (example_builtins JNull) example_decision None False"
  have o: "overall ?c = fl (of_int (Math_round (fl (weightedTotal (factors ?c) * 100))) / 100)"
    and l: "level ?c = getConfidenceLevel (weightedTotal (factors ?c))"
    by (simp_all add: calculateConfidenceScore_def Let_def)
  have t: "weightedTotal (factors ?c) = 5381801554707743 / 9007199254740992"
    by (simp only: example_factors example_total)
  have o': "overall ?c = 5404319552844595 / 9007199254740992"
    unfolding o t by (rule example_overall)
  have l': "level ?c = low"
    unfolding l t getConfidenceLevel_def literals by simp
  show ?thesis
    unfolding o' l' literals by simp
qed

lemma clamp01_bounds: "0 \<le> clamp01 x \<and> clamp01 x \<le> 1"
  by (simp add: clamp01_def)

lemma weights_nonneg:
  "0 \<le> fl (2 / 10)" "0 \<le> fl (25 / 100)" "0 \<le> fl (1 / 10)"
  by (rule fl_nonneg, simp)+

lemma weightedTotal_unfold:
  "weightedTotal f =
     fl (fl (fl (fl (fl (0 + fl (inputClarity f * fl (2 / 10)))
                     + fl (decisionSpecificity f * fl (25 / 100)))
                 + fl (taskActionability f * fl (25 / 100)))
             + fl (reasoningQuality f * fl (2 / 10)))
         + fl (contextAvailability f * fl (1 / 10)))"
  by (simp only: weightedTotal_def foldl.simps prod.case)

lemma step_mono:
  assumes "0 \<le> t" "t \<le> t'" "0 \<le> s" "s \<le> s'" "0 \<le> w"
  shows "0 \<le> fl (t + fl (s * w)) \<and> fl (t + fl (s * w)) \<le> fl (t' + fl (s' * w))"
proof -
  have sw: "0 \<le> s * w" "s * w \<le> s' * w"
    using assms by (simp_all add: mult_right_mono)
  then have f: "0 \<le> fl (s * w)" "fl (s * w) \<le> fl (s' * w)"
    by (simp_all add: fl_nonneg fl_mono)
  with assms have "0 \<le> t + fl (s * w)" "t + fl (s * w) \<le> t' + fl (s' * w)"
    by simp_all
  then show ?thesis
    by (simp add: fl_nonneg fl_mono)
qed

lemma weightedTotal_bounds:
  assumes "0 \<le> inputClarity f \<and> inputClarity f \<le> 1"
    and "0 \<le> decisionSpecificity f \<and> decisionSpecificity f \<le> 1"
    and "0 \<le> taskActionability f \<and> taskActionability f \<le> 1"
    and "0 \<le> reasoningQuality f \<and> reasoningQuality f \<le> 1"
    and "0 \<le> contextAvailability f \<and> contextAvailability f \<le> fl (1 / 10)"
  shows "0 \<le> weightedTotal f
       \<and> weightedTotal f \<le> weightedTotal \<lparr>inputClarity = 1, decisionSpecificity = 1,
            taskActionability = 1, reasoningQuality = 1, contextAvailability = fl (1 / 10)\<rparr>"
proof -
  note s1 = step_mono [of 0 0 "inputClarity f" 1 "fl (2 / 10)"]
  from s1 assms(1) weights_nonneg(1) have t1:
    "0 \<le> fl (0 + fl (inputClarity f * fl (2 / 10)))
     \<and> fl (0 + fl (inputClarity f * fl (2 / 10))) \<le> fl (0 + fl (1 * fl (2 / 10)))"
    by simp
  from step_mono [OF t1 [THEN conjunct1] t1 [THEN conjunct2], of "decisionSpecificity f" 1 "fl (25 / 100)"]
    assms(2) weights_nonneg(2)
  have t2:
    "0 \<le> fl (fl (0 + fl (inputClarity f * fl (2 / 10))) + fl (decisionSpecificity f * fl (25 / 100)))
     \<and> fl (fl (0 + fl (inputClarity f * fl (2 / 10))) + fl (decisionSpecificity f * fl (25 / 100)))
        \<le> fl (fl (0 + fl (1 * fl (2 / 10))) + fl (1 * fl (25 / 100)))"
    by blast
  from step_mono [OF t2 [THEN conjunct1] t2 [THEN conjunct2], of "taskActionability f" 1 "fl (25 / 100)"]
    assms(3) weights_nonneg(2)
  have t3:
    "0 \<le> fl (fl (fl (0 + fl (inputClarity f * fl (2 / 10))) + fl (decisionSpecificity f * fl (25 / 100)))
             + fl (taskActionability f * fl (25 / 100)))
     \<and> fl (fl (fl (0 + fl (inputClarity f * fl (2 / 10))) + fl (decisionSpecificity f * fl (25 / 100)))
             + fl (taskActionability f * fl (25 / 100)))
        \<le> fl (fl (fl (0 + fl (1 * fl (2 / 10))) + fl (1 * fl (25 / 100))) + fl (1 * fl (25 / 100)))"
    by blast
  from step_mono [OF t3 [THEN conjunct1] t3 [THEN conjunct2], of "reasoningQuality f" 1 "fl (2 / 10)"]
    assms(4) weights_nonneg(1)
  have t4:
    "0 \<le> fl (fl (fl (fl (0 + fl (inputClarity f * fl (2 / 10))) + fl (decisionSpecificity f * fl (25 / 100)))
             + fl (taskActionability f * fl (25 / 100))) + fl (reasoningQuality f * fl (2 / 10)))
     \<and> fl (fl (fl (fl (0 + fl (inputClarity f * fl (2 / 10))) + fl (decisionSpecificity f * fl (25 / 100)))
             + fl (taskActionability f * fl (25 / 100))) + fl (reasoningQuality f * fl (2 / 10)))
        \<le> fl (fl (fl (fl (0 + fl (1 * fl (2 / 10))) + fl (1 * fl (25 / 100))) + fl (1 * fl (25 / 100)))
             + fl (1 * fl (2 / 10)))"
    by blast
  from step_mono [OF t4 [THEN conjunct1] t4 [THEN conjunct2], of "contextAvailability f" "fl (1 / 10)" "fl (1 / 10)"]
    assms(5) weights_nonneg(3)
  have t5:
    "0 \<le> fl (fl (fl (fl (fl (0 + fl (inputClarity f * fl (2 / 10))) + fl (decisionSpecificity f * fl (25 / 100)))
             + fl (taskActionability f * fl (25 / 100))) + fl (reasoningQuality f * fl (2 / 10)))
             + fl (contextAvailability f * fl (1 / 10)))
     \<and> fl (fl (fl (fl (fl (0 + fl (inputClarity f * fl (2 / 10))) + fl (decisionSpecificity f * fl (25 / 100)))
             + fl (taskActionability f * fl (25 / 100))) + fl (reasoningQuality f * fl (2 / 10)))
             + fl (contextAvailability f * fl (1 / 10)))
        \<le> fl (fl (fl (fl (fl (0 + fl (1 * fl (2 / 10))) + fl (1 * fl (25 / 100))) + fl (1 * fl (25 / 100)))
             + fl (1 * fl (2 / 10))) + fl (fl (1 / 10) * fl (1 / 10)))"
    by blast
  show ?thesis
    unfolding weightedTotal_unfold confidence_factors.simps by (rule t5)
qed

lemma weightedTotal_top:
  "weightedTotal \<lparr>inputClarity = 1, decisionSpecificity = 1, taskActionability = 1,
      reasoningQuality = 1, contextAvailability = fl (1 / 10)\<rparr>
   = 4098275660907151 / 4503599627370496"
  by (simp add: weightedTotal_def) (simp add: fl_eval)

lemma Math_round_mono: "x \<le> y \<Longrightarrow> Math_round x \<le> Math_round y"
  unfolding Math_round_def by (rule floor_mono) simp

lemma overall_bounds:
  assumes "0 \<le> t" "t \<le> 4098275660907151 / 4503599627370496"
  shows "0 \<le> fl (of_int (Math_round (fl (t * 100))) / 100)
       \<and> fl (of_int (Math_round (fl (t * 100))) / 100) \<le> 1"
proof -
  have a: "(4098275660907151 / 4503599627370496 :: rat) * 100 = 102456891522678775 / 1125899906842624"
    by simp
  have b: "fl (102456891522678775 / 1125899906842624) = 6403555720167423 / 70368744177664"
    by (simp add: fl_eval)
  have c: "Math_round (6403555720167423 / 70368744177664) = 91"
    by (simp add: Math_round_def)
  have "0 \<le> t * 100" "t * 100 \<le> 4098275660907151 / 4503599627370496 * 100"
    using assms by simp_all
  then have m: "fl 0 \<le> fl (t * 100)" "fl (t * 100) \<le> fl (4098275660907151 / 4503599627370496 * 100)"
    by (simp_all add: fl_mono del: fl_0)
  have "Math_round 0 \<le> Math_round (fl (t * 100))"
    using m(1) unfolding fl_0 by (rule Math_round_mono)
  moreover have "Math_round (fl (t * 100)) \<le> Math_round (6403555720167423 / 70368744177664)"
    using m(2) unfolding a b by (rule Math_round_mono)
  moreover have "Math_round 0 = 0"
    unfolding Math_round_def by (rule floor_unique) simp_all
  ultimately have k: "0 \<le> Math_round (fl (t * 100))" "Math_round (fl (t * 100)) \<le> 91"
    unfolding c by simp_all
  then have "(0::rat) \<le> of_int (Math_round (fl (t * 100))) / 100"
    "of_int (Math_round (fl (t * 100))) / 100 \<le> (1::rat)"
    by simp_all
  then have "fl 0 \<le> fl (of_int (Math_round (fl (t * 100))) / 100)"
    "fl (of_int (Math_round (fl (t * 100))) / 100) \<le> fl 1"
    by (simp_all add: fl_mono del: fl_0 fl_1)
  then show ?thesis by simp
qed

lemma thresholds_ordered: "fl (4 / 10) \<le> fl (6 / 10)" "fl (6 / 10) \<le> fl (8 / 10)"
  by (rule fl_mono, simp, simp)+

lemma factor_bounds:
  "0 \<le> calculateInputClarity B userInput \<and> calculateInputClarity B userInput \<le> 1"
  "0 \<le> calculateDecisionSpecificity B dt \<and> calculateDecisionSpecificity B dt \<le> 1"
  "0 \<le> calculateTaskActionability B ts \<and> calculateTaskActionability B ts \<le> 1"
  "0 \<le> calculateReasoningQuality B r \<and> calculateReasoningQuality B r \<le> 1"
proof -
  have h: "fl (5 / 10) = 1 / 2" by (rule literals)
  show "0 \<le> calculateInputClarity B userInput \<and> calculateInputClarity B userInput \<le> 1"
    unfolding calculateInputClarity_def Let_def h
    using clamp01_bounds by (simp split: option.splits)
  show "0 \<le> calculateDecisionSpecificity B dt \<and> calculateDecisionSpecificity B dt \<le> 1"
    unfolding calculateDecisionSpecificity_def Let_def
    using clamp01_bounds by simp
  show "0 \<le> calculateTaskActionability B ts \<and> calculateTaskActionability B ts \<le> 1"
    unfolding calculateTaskActionability_def Let_def
    using clamp01_bounds by simp
  show "0 \<le> calculateReasoningQuality B r \<and> calculateReasoningQuality B r \<le> 1"
    unfolding calculateReasoningQuality_def Let_def
    using clamp01_bounds by simp
qed

text \<open>
  C6, amended: for every decision, user input and context flag, \<open>overall\<close> lies in [0, 1] and
  is the weighted sum of the five factors, multiplied by 100, rounded to the nearest integer
  and divided by 100; the weighted sum adds the five products factor times weight in the order
  inputClarity (0.2), decisionSpecificity (0.25), taskActionability (0.25), reasoningQuality
  (0.2), contextAvailability (0.1), in double arithmetic; and the level is decided by the
  weighted sum before it is rounded to two decimals: \<open>high\<close> iff it is at least 0.8,
  \<open>medium\<close> iff it is at least 0.6 and below 0.8, \<open>low\<close> iff it is at least 0.4 and below 0.6,
  \<open>very_low\<close> iff it is below 0.4.
\<close>

theorem calculateConfidenceScore_overall_level:
  "0 \<le> overall (calculateConfidenceScore B d userInput hasContext)
   \<and> overall (calculateConfidenceScore B d userInput hasContext) \<le> 1
   \<and> overall (calculateConfidenceScore B d userInput hasContext)
       = fl (of_int (Math_round
               (fl (weightedTotal (factors (calculateConfidenceScore B d userInput hasContext)) * 100)))
             / 100)
   \<and> weightedTotal (factors (calculateConfidenceScore B d userInput hasContext))
       = fl (fl (fl (fl (fl (0 + fl (calculateInputClarity B userInput * fl (2 / 10)))
                         + fl (calculateDecisionSpecificity B (decision_text d) * fl (25 / 100)))
                     + fl (calculateTaskActionability B (tasks d) * fl (25 / 100)))
                 + fl (calculateReasoningQuality B (reasoning d) * fl (2 / 10)))
             + fl ((if hasContext then fl (1 / 10) else 0) * fl (1 / 10)))
   \<and> (level (calculateConfidenceScore B d userInput hasContext) = high)
       = (fl (8 / 10) \<le> weightedTotal (factors (calculateConfidenceScore B d userInput hasContext)))
   \<and> (level (calculateConfidenceScore B d userInput hasContext) = medium)
       = (fl (6 / 10) \<le> weightedTotal (factors (calculateConfidenceScore B d userInput hasContext))
          \<and> weightedTotal (factors (calculateConfidenceScore B d userInput hasContext)) < fl (8 / 10))
   \<and> (level (calculateConfidenceScore B d userInput hasContext) = low)
       = (fl (4 / 10) \<le> weightedTotal (factors (calculateConfidenceScore B d userInput hasContext))
          \<and> weightedTotal (factors (calculateConfidenceScore B d userInput hasContext)) < fl (6 / 10))
   \<and> (level (calculateConfidenceScore B d userInput hasContext) = very_low)
       = (weightedTotal (factors (calculateConfidenceScore B d userInput hasContext)) < fl (4 / 10))"
proof -
  define c where "c = calculateConfidenceScore B d userInput hasContext"
  define fs where "fs = \<lparr>inputClarity = calculateInputClarity B userInput,
                 decisionSpecificity = calculateDecisionSpecificity B (decision_text d),
                 taskActionability = calculateTaskActionability B (tasks d),
                 reasoningQuality = calculateReasoningQuality B (reasoning d),
                 contextAvailability = (if hasContext then fl (1 / 10) else 0)\<rparr>"
  have f: "factors c = fs"
    and o: "overall c = fl (of_int (Math_round (fl (weightedTotal fs * 100))) / 100)"
    and l: "level c = getConfidenceLevel (weightedTotal fs)"
    by (simp_all add: c_def fs_def calculateConfidenceScore_def Let_def)
  have ca: "0 \<le> contextAvailability fs \<and> contextAvailability fs \<le> fl (1 / 10)"
    using weights_nonneg(3) by (simp add: fs_def)
  have "0 \<le> weightedTotal fs
       \<and> weightedTotal fs \<le> weightedTotal \<lparr>inputClarity = 1, decisionSpecificity = 1,
            taskActionability = 1, reasoningQuality = 1, contextAvailability = fl (1 / 10)\<rparr>"
    by (rule weightedTotal_bounds) (simp_all add: fs_def factor_bounds ca [unfolded fs_def, simplified])
  then have t: "0 \<le> weightedTotal fs" "weightedTotal fs \<le> 4098275660907151 / 4503599627370496"
    unfolding weightedTotal_top by simp_all
  note ob = overall_bounds [OF t]
  have u: "weightedTotal fs
       = fl (fl (fl (fl (fl (0 + fl (calculateInputClarity B userInput * fl (2 / 10)))
                         + fl (calculateDecisionSpecificity B (decision_text d) * fl (25 / 100)))
                     + fl (calculateTaskActionability B (tasks d) * fl (25 / 100)))
                 + fl (calculateReasoningQuality B (reasoning d) * fl (2 / 10)))
             + fl ((if hasContext then fl (1 / 10) else 0) * fl (1 / 10)))"
    unfolding weightedTotal_unfold by (simp add: fs_def)
  have lv: "(level c = high) = (fl (8 / 10) \<le> weightedTotal fs)"
    "(level c = medium) = (fl (6 / 10) \<le> weightedTotal fs \<and> weightedTotal fs < fl (8 / 10))"
    "(level c = low) = (fl (4 / 10) \<le> weightedTotal fs \<and> weightedTotal fs < fl (6 / 10))"
    "(level c = very_low) = (weightedTotal fs < fl (4 / 10))"
    using thresholds_ordered unfolding l getConfidenceLevel_def by auto
  show ?thesis
    unfolding c_def [symmetric] f o
    using ob u lv by (intro conjI) simp_all
qed

text \<open>C6 at the example decision, whose level is \<open>low\<close>.\<close>

theorem calculateConfidenceScore_overall_level_witness:
  "0 \<le> overall (calculateConfidenceScore (example_builtins JNull) example_decision None False)
   \<and> overall (calculateConfidenceScore (example_builtins JNull) example_decision None False) \<le> 1
   \<and> (level (calculateConfidenceScore (example_builtins JNull) example_decision None False) = low)
       = (fl (4 / 10) \<le> weightedTotal (factors (calculateConfidenceScore (example_builtins JNull) example_decision None False))
          \<and> weightedTotal (factors (calculateConfidenceScore (example_builtins JNull) example_decision None False)) < fl (6 / 10))"
  using calculateConfidenceScore_overall_level [of "example_builtins JNull" example_decision None False]
  by (intro conjI) (elim conjE, assumption)+

end
